theory Spec2Isabelle
  imports Main "HOL-Library.Sublist" "HOL-Library.Multiset"
begin

section \<open>Strings\<close>

text \<open>
  The widget's strings are JavaScript strings. They are modelled as \<^typ>\<open>string\<close>, one
  \<^typ>\<open>char\<close> per code unit, which covers the code units U+0000 to U+00FF. On that range
  \<^verbatim>\<open>toLowerCase\<close> moves A to Z and the accented capitals U+00C0 to U+00DE (the
  multiplication sign U+00D7 apart) up by 32, and \<^verbatim>\<open>trim\<close> strips tab, line feed,
  vertical tab, form feed, carriage return, space and the no-break space U+00A0.
\<close>

definition toLowerCase_char :: "char \<Rightarrow> char" where
  "toLowerCase_char c =
     (let n = (of_char c :: nat)
      in if (65 \<le> n \<and> n \<le> 90) \<or> (192 \<le> n \<and> n \<le> 222 \<and> n \<noteq> 215)
         then char_of (n + 32) else c)"

definition toLowerCase :: "string \<Rightarrow> string" where
  "toLowerCase str = map toLowerCase_char str"

definition isWhiteSpace :: "char \<Rightarrow> bool" where
  "isWhiteSpace c = ((of_char c :: nat) \<in> {9, 10, 11, 12, 13, 32, 160})"

definition trim :: "string \<Rightarrow> string" where
  "trim str = rev (dropWhile isWhiteSpace (rev (dropWhile isWhiteSpace str)))"

text \<open>
  \<^verbatim>\<open>t.indexOf(q)\<close>: the position of the first occurrence of \<open>q\<close> in \<open>t\<close>, or \<open>-1\<close>.
\<close>

fun indexOf :: "string \<Rightarrow> string \<Rightarrow> int" where
  "indexOf [] q = (if q = [] then 0 else -1)"
| "indexOf (c # cs) q =
     (if prefix q (c # cs) then 0
      else (let r = indexOf cs q in if r = -1 then -1 else r + 1))"

section \<open>Records of the index and scoring\<close>

text \<open>
  A loaded record is the object \<^verbatim>\<open>{t, d, u}\<close>: title, description and url. The fields
  carry the prefix \<open>it_\<close> here. The three variants of the widget are called A
  (\<^verbatim>\<open>src/search.js\<close>), B (\<^verbatim>\<open>src/unnamed/part_000\<close>) and C
  (\<^verbatim>\<open>src/unnamed/part_001\<close>).
\<close>

record item =
  it_t :: string
  it_d :: string
  it_u :: string

definition score_A :: "string \<Rightarrow> string \<Rightarrow> string \<Rightarrow> int" where
  "score_A q0 t0 d0 =
     (let q = toLowerCase q0; t = toLowerCase t0; d = toLowerCase d0
      in if q = [] then 0
         else if t = q then 1000
         else if indexOf t q = 0 then 800
         else if indexOf t q \<noteq> -1 then 600
         else if indexOf d q \<noteq> -1 then 300
         else 0)"

definition score_B :: "string \<Rightarrow> string \<Rightarrow> string \<Rightarrow> int" where
  "score_B q0 t0 d0 =
     (let q = toLowerCase q0; t = toLowerCase t0; d = toLowerCase d0
      in if q = [] then 0
         else if t = q then 1000
         else if indexOf t q = 0 then 850
         else if indexOf t q \<noteq> -1 then 650
         else if indexOf d q \<noteq> -1 then 300
         else 0)"

definition norm :: "string \<Rightarrow> string" where
  "norm str = trim (toLowerCase str)"

definition scoreItem :: "string \<Rightarrow> item \<Rightarrow> int" where
  "scoreItem q item =
     (let t = norm (it_t item); d = norm (it_d item)
      in if q = [] then -1
         else if t = q then 1000
         else if indexOf t q = 0 then 800
         else if indexOf t q \<noteq> -1 then 600
         else if d \<noteq> [] \<and> indexOf d q \<noteq> -1 then 300
         else -1)"


section \<open>Ranking\<close>

text \<open>
  \<^verbatim>\<open>Array.prototype.sort(cmp)\<close> is stable, and with a consistent comparator its result is
  the one stable arrangement in which no element is followed by one that \<open>cmp\<close> puts before it.
  It is modelled by insertion from the right, which produces that arrangement: an element goes
  in front of the first later element that it does not follow.
\<close>

fun insert_sorted :: "('a \<Rightarrow> 'a \<Rightarrow> int) \<Rightarrow> 'a \<Rightarrow> 'a list \<Rightarrow> 'a list" where
  "insert_sorted cmp x [] = [x]"
| "insert_sorted cmp x (y # ys) =
     (if cmp x y \<le> 0 then x # y # ys else y # insert_sorted cmp x ys)"

definition array_sort :: "('a \<Rightarrow> 'a \<Rightarrow> int) \<Rightarrow> 'a list \<Rightarrow> 'a list" where
  "array_sort cmp xs = foldr (insert_sorted cmp) xs []"

text \<open>Variants A and B push \<^verbatim>\<open>{ s: s, it: it }\<close> for every record with \<^verbatim>\<open>s > 0\<close>.\<close>

record cand =
  cand_s :: int
  cand_it :: item

fun collect_A :: "string \<Rightarrow> item list \<Rightarrow> cand list" where
  "collect_A q [] = []"
| "collect_A q (it # rest) =
     (let s = score_A q (it_t it) (it_d it)
      in if s > 0 then \<lparr>cand_s = s, cand_it = it\<rparr> # collect_A q rest else collect_A q rest)"

fun collect_B :: "string \<Rightarrow> item list \<Rightarrow> cand list" where
  "collect_B q [] = []"
| "collect_B q (it # rest) =
     (let s = score_B q (it_t it) (it_d it)
      in if s > 0 then \<lparr>cand_s = s, cand_it = it\<rparr> # collect_B q rest else collect_B q rest)"

definition cmp_AB :: "cand \<Rightarrow> cand \<Rightarrow> int" where
  "cmp_AB a b = cand_s b - cand_s a"

definition ranked_A :: "string \<Rightarrow> item list \<Rightarrow> cand list" where
  "ranked_A q its = array_sort cmp_AB (collect_A q its)"

definition ranked_B :: "string \<Rightarrow> item list \<Rightarrow> cand list" where
  "ranked_B q its = array_sort cmp_AB (collect_B q its)"

definition top_A :: "string \<Rightarrow> item list \<Rightarrow> cand list" where
  "top_A q its = take 10 (ranked_A q its)"

definition top_B :: "string \<Rightarrow> item list \<Rightarrow> cand list" where
  "top_B q its = take 10 (ranked_B q its)"

text \<open>
  Variant C pushes \<^verbatim>\<open>{ s, t, u, d }\<close> for every record with \<^verbatim>\<open>s >= 0\<close> and breaks ties
  with \<^verbatim>\<open>a.t.localeCompare(b.t)\<close>. The collation of the host is not part of the
  repository, so it is the parameter \<open>lc\<close> of everything that sorts in variant C.
\<close>

record scored =
  sc_s :: int
  sc_t :: string
  sc_u :: string
  sc_d :: string

fun collect_C :: "string \<Rightarrow> item list \<Rightarrow> scored list" where
  "collect_C q [] = []"
| "collect_C q (it # rest) =
     (let s = scoreItem q it
      in if s \<ge> 0
         then \<lparr>sc_s = s, sc_t = it_t it, sc_u = it_u it, sc_d = it_d it\<rparr> # collect_C q rest
         else collect_C q rest)"

definition cmp_C :: "(string \<Rightarrow> string \<Rightarrow> int) \<Rightarrow> scored \<Rightarrow> scored \<Rightarrow> int" where
  "cmp_C lc a b = (if sc_s b \<noteq> sc_s a then sc_s b - sc_s a else lc (sc_t a) (sc_t b))"

definition ranked_C :: "(string \<Rightarrow> string \<Rightarrow> int) \<Rightarrow> string \<Rightarrow> item list \<Rightarrow> scored list" where
  "ranked_C lc q its = array_sort (cmp_C lc) (collect_C q its)"

definition top_C :: "(string \<Rightarrow> string \<Rightarrow> int) \<Rightarrow> string \<Rightarrow> item list \<Rightarrow> scored list" where
  "top_C lc q its = take 8 (ranked_C lc q its)"

text \<open>
  The ascending lexicographic order of titles, as a comparator on code units: negative, zero
  or positive as the first string is before, equal to or after the second. It is a concrete
  collation for the examples.
\<close>

fun lex_compare :: "string \<Rightarrow> string \<Rightarrow> int" where
  "lex_compare [] [] = 0"
| "lex_compare [] (y # ys) = -1"
| "lex_compare (x # xs) [] = 1"
| "lex_compare (x # xs) (y # ys) =
     (if (of_char x :: nat) < of_char y then -1
      else if (of_char y :: nat) < of_char x then 1
      else lex_compare xs ys)"

text \<open>
  A consistent comparator, as \<^verbatim>\<open>sort\<close> expects it: \<open>a\<close> is before \<open>b\<close> exactly when
  \<open>b\<close> is after \<open>a\<close>, and being before or equal is transitive.
\<close>

definition consistent :: "('a \<Rightarrow> 'a \<Rightarrow> int) \<Rightarrow> bool" where
  "consistent cmp \<longleftrightarrow>
     (\<forall>a b. cmp a b < 0 \<longleftrightarrow> 0 < cmp b a) \<and>
     (\<forall>a b c. cmp a b \<le> 0 \<longrightarrow> cmp b c \<le> 0 \<longrightarrow> cmp a c \<le> 0)"

text \<open>
  The kinds of match of the scoring policy, best first, and the kind that a query has in a
  title and a description that are given as they are to be compared.
\<close>

datatype match_kind = Exact_title | Title_prefix | Title_substring | Description_substring | No_match

definition kind_of :: "string \<Rightarrow> string \<Rightarrow> string \<Rightarrow> match_kind" where
  "kind_of q t d =
     (if t = q then Exact_title
      else if prefix q t then Title_prefix
      else if sublist q t then Title_substring
      else if sublist q d then Description_substring
      else No_match)"

fun kind_rank :: "match_kind \<Rightarrow> nat" where
  "kind_rank Exact_title = 4"
| "kind_rank Title_prefix = 3"
| "kind_rank Title_substring = 2"
| "kind_rank Description_substring = 1"
| "kind_rank No_match = 0"

text \<open>
  The form in which a query and the fields of a record are to be compared: case-folded, and
  with the white space at both ends taken off. It is written out here on its own, apart
  from what the variants call.
\<close>

fun strip_end :: "string \<Rightarrow> string" where
  "strip_end [] = []"
| "strip_end (c # cs) =
     (let rest = strip_end cs in if rest = [] \<and> isWhiteSpace c then [] else c # rest)"

definition normal_form :: "string \<Rightarrow> string" where
  "normal_form str = strip_end (dropWhile isWhiteSpace (map toLowerCase_char str))"

text \<open>
  The kind of match of a record for a query: the query, the title and the description are
  case-folded and trimmed before they are compared.
\<close>

definition match_kind_of :: "string \<Rightarrow> item \<Rightarrow> match_kind" where
  "match_kind_of q it =
     kind_of (normal_form q) (normal_form (it_t it)) (normal_form (it_d it))"

definition scored_item :: "scored \<Rightarrow> item" where
  "scored_item c = \<lparr>it_t = sc_t c, it_d = sc_d c, it_u = sc_u c\<rparr>"

section \<open>Loading the index\<close>

text \<open>
  The values that \<^verbatim>\<open>r.json()\<close> can produce, and \<^verbatim>\<open>undefined\<close> for a property
  that is absent. An object is the association list of its own properties. A number is kept
  as the string that JavaScript prints it as, for instance \<^verbatim>\<open>1e+21\<close>, which leaves
  floating point out: it is falsy exactly when it prints as \<^verbatim>\<open>0\<close>. Only variant B reads
  untyped values: it normalizes every entry to a record of three strings.
\<close>

datatype jsval =
    Undefined
  | Null
  | Bool bool
  | Num string
  | Str string
  | Arr "jsval list"
  | Obj "(string \<times> jsval) list"

datatype error = TypeError

fun truthy :: "jsval \<Rightarrow> bool" where
  "truthy Undefined = False"
| "truthy Null = False"
| "truthy (Bool b) = b"
| "truthy (Num n) = (n \<noteq> ''0'')"
| "truthy (Str str) = (str \<noteq> [])"
| "truthy (Arr xs) = True"
| "truthy (Obj kvs) = True"

definition js_or :: "jsval \<Rightarrow> jsval \<Rightarrow> jsval" where
  "js_or a b = (if truthy a then a else b)"

text \<open>
  \<^verbatim>\<open>x.k\<close> for the keys the loader reads. None of them is a property of a number, a
  boolean or an array; a string entry has the inherited method \<^verbatim>\<open>link\<close>, which is read
  only for an entry that is dropped for its empty title, and printing it does not throw, so
  it is left out.
\<close>

fun get_prop :: "jsval \<Rightarrow> string \<Rightarrow> jsval" where
  "get_prop (Obj kvs) k = (case map_of kvs k of Some v \<Rightarrow> v | None \<Rightarrow> Undefined)"
| "get_prop x k = Undefined"

fun isArray :: "jsval \<Rightarrow> bool" where
  "isArray (Arr xs) = True"
| "isArray x = False"

fun elements :: "jsval \<Rightarrow> jsval list" where
  "elements (Arr xs) = xs"
| "elements x = []"

text \<open>
  \<^verbatim>\<open>Array.prototype.join\<close> with a comma, over elements that are already printed; the first
  element that threw makes the whole join throw.
\<close>

fun join_comma :: "(error + string) list \<Rightarrow> error + string" where
  "join_comma [] = Inr []"
| "join_comma (Inl e # rest) = Inl e"
| "join_comma [Inr x] = Inr x"
| "join_comma (Inr x # y # ys) =
     (case join_comma (y # ys) of Inl e \<Rightarrow> Inl e | Inr r \<Rightarrow> Inr (x @ '','' @ r))"

text \<open>
  \<^verbatim>\<open>String(v)\<close>. An array is joined with commas, \<^verbatim>\<open>null\<close> elements as empty strings.
  An object prints as \<^verbatim>\<open>[object Object]\<close> through the inherited \<^verbatim>\<open>toString\<close>; an own
  property \<^verbatim>\<open>toString\<close> hides it, is never callable in parsed JSON, and \<^verbatim>\<open>valueOf\<close> gives
  no primitive, so the conversion throws a TypeError.
\<close>

fun String_of :: "jsval \<Rightarrow> error + string" where
  "String_of Undefined = Inr ''undefined''"
| "String_of Null = Inr ''null''"
| "String_of (Bool b) = Inr (if b then ''true'' else ''false'')"
| "String_of (Num n) = Inr n"
| "String_of (Str str) = Inr str"
| "String_of (Arr xs) =
     join_comma (map (\<lambda>x. if x = Null \<or> x = Undefined then Inr [] else String_of x) xs)"
| "String_of (Obj kvs) =
     (if ''toString'' \<in> set (map fst kvs) then Inl TypeError else Inr ''[object Object]'')"

definition nullish_to_empty :: "jsval \<Rightarrow> jsval" where
  \<comment> \<open>\<^verbatim>\<open>v == null ? "" : v\<close>\<close>
  "nullish_to_empty v = (if v = Null \<or> v = Undefined then Str [] else v)"

definition trimmed_String :: "jsval \<Rightarrow> error + string" where
  \<comment> \<open>\<^verbatim>\<open>String(v == null ? "" : v).trim()\<close>\<close>
  "trimmed_String v =
     (case String_of (nullish_to_empty v) of Inl e \<Rightarrow> Inl e | Inr str \<Rightarrow> Inr (trim str))"

definition normUrl :: "jsval \<Rightarrow> error + string" where
  "normUrl u0 =
     (case trimmed_String u0 of
        Inl e \<Rightarrow> Inl e
      | Inr u \<Rightarrow> if u = [] then Inr ''/'' else Inr u)"

definition title_alias :: "jsval \<Rightarrow> jsval" where
  \<comment> \<open>\<^verbatim>\<open>x.t || x.title || x.name || x.h1 || ""\<close>\<close>
  "title_alias x =
     js_or (js_or (js_or (js_or (get_prop x ''t'') (get_prop x ''title'')) (get_prop x ''name''))
       (get_prop x ''h1'')) (Str [])"

definition description_alias :: "jsval \<Rightarrow> jsval" where
  \<comment> \<open>\<^verbatim>\<open>x.d || x.description || x.desc || x.snippet || x.summary || ""\<close>\<close>
  "description_alias x =
     js_or (js_or (js_or (js_or (js_or (get_prop x ''d'') (get_prop x ''description''))
       (get_prop x ''desc'')) (get_prop x ''snippet'')) (get_prop x ''summary'')) (Str [])"

definition url_alias :: "jsval \<Rightarrow> jsval" where
  \<comment> \<open>\<^verbatim>\<open>x.u || x.url || x.href || x.path || x.link || ""\<close>\<close>
  "url_alias x =
     js_or (js_or (js_or (js_or (js_or (get_prop x ''u'') (get_prop x ''url''))
       (get_prop x ''href'')) (get_prop x ''path'')) (get_prop x ''link'')) (Str [])"

text \<open>
  The title, description and url an entry resolves to: the first truthy alias, as a trimmed
  string, or the TypeError of its conversion. The url is the one before \<^verbatim>\<open>normUrl\<close> puts
  \<^verbatim>\<open>"/"\<close> for an empty one.
\<close>

definition resolved_title :: "jsval \<Rightarrow> error + string" where
  "resolved_title x = trimmed_String (title_alias x)"

definition resolved_description :: "jsval \<Rightarrow> error + string" where
  "resolved_description x = trimmed_String (description_alias x)"

definition resolved_url :: "jsval \<Rightarrow> error + string" where
  "resolved_url x = trimmed_String (url_alias x)"

text \<open>
  The loop of \<^verbatim>\<open>normalizeData\<close>. A conversion that throws ends the loop and the function:
  nothing catches it there.
\<close>

fun normalize_loop :: "jsval list \<Rightarrow> error + item list" where
  "normalize_loop [] = Inr []"
| "normalize_loop (x # raw) =
     (if \<not> truthy x then normalize_loop raw
      else
        (case trimmed_String (title_alias x) of
           Inl e \<Rightarrow> Inl e
         | Inr t \<Rightarrow>
             (case trimmed_String (description_alias x) of
                Inl e \<Rightarrow> Inl e
              | Inr d \<Rightarrow>
                  (case normUrl (url_alias x) of
                     Inl e \<Rightarrow> Inl e
                   | Inr u \<Rightarrow>
                       if t = [] \<or> u = [] then normalize_loop raw
                       else
                         (case normalize_loop raw of
                            Inl e \<Rightarrow> Inl e
                          | Inr out \<Rightarrow> Inr (\<lparr>it_t = t, it_d = d, it_u = u\<rparr> # out))))))"

definition normalizeData :: "jsval \<Rightarrow> error + item list" where
  "normalizeData data =
     (let raw =
        (if truthy data \<and> isArray (get_prop data ''items'') then elements (get_prop data ''items'')
         else if isArray data then elements data
         else [])
      in normalize_loop raw)"

text \<open>
  How the request for \<^verbatim>\<open>/search-index.json\<close> ends: \<^verbatim>\<open>fetch\<close> rejects, or it
  resolves with a response, of which the model keeps \<^verbatim>\<open>r.ok\<close> and what \<^verbatim>\<open>r.json()\<close>
  gives (\<open>None\<close> when the body does not parse and the promise rejects).
\<close>

datatype 'd response = Fetch_rejected | Response bool "'d option"

text \<open>
  The index is unavailable: the request fails, the status is not a success, or the body does
  not parse.
\<close>

definition failed :: "'d response \<Rightarrow> bool" where
  "failed resp =
     (case resp of Fetch_rejected \<Rightarrow> True | Response ok body \<Rightarrow> \<not> ok \<or> body = None)"

text \<open>
  The failures that leave no parsed body: the request fails or the body does not parse,
  whatever the status. They are the ones that reach the \<^verbatim>\<open>catch\<close> handler of variants A
  and C, which do not look at \<^verbatim>\<open>r.ok\<close>.
\<close>

definition no_body :: "'d response \<Rightarrow> bool" where
  "no_body resp = (case resp of Fetch_rejected \<Rightarrow> True | Response ok body \<Rightarrow> body = None)"

text \<open>
  Variants A and C keep \<^verbatim>\<open>data.items\<close> as it is and read the fields of its entries
  when they score. For them the parsed document is taken to be either an object whose
  \<^verbatim>\<open>items\<close> is an array of records \<^verbatim>\<open>{t, d, u}\<close> of strings, or a document that gives
  no records.
\<close>

datatype doc = Doc_items "item list" | Doc_other

fun doc_items :: "doc \<Rightarrow> item list" where
  \<comment> \<open>\<^verbatim>\<open>(data && Array.isArray(data.items)) ? data.items : []\<close> in variant A,
    \<^verbatim>\<open>(data && data.items) ? data.items : []\<close> in variant C\<close>
  "doc_items (Doc_items its) = its"
| "doc_items Doc_other = []"

section \<open>The panel and the keyboard\<close>

text \<open>
  What the results box holds: nothing, the message that nothing was found, the message that
  the index is loading (variant C), or one row per result. The rows are kept as the results
  they were written from; \<^verbatim>\<open>querySelectorAll(".search-item")\<close> returns them.
\<close>

datatype 'r content = Empty_box | No_results | Loading | Rows "'r list"

fun rows_of :: "'r content \<Rightarrow> 'r list" where
  "rows_of (Rows rs) = rs"
| "rows_of c = []"

datatype key = ArrowDown | ArrowUp | Enter | Escape | Other_key

definition nth_opt :: "'a list \<Rightarrow> int \<Rightarrow> 'a option" where
  \<comment> \<open>\<^verbatim>\<open>rows[i]\<close>, \<open>None\<close> for \<^verbatim>\<open>undefined\<close>\<close>
  "nth_opt xs i = (if 0 \<le> i \<and> i < int (length xs) then Some (xs ! nat i) else None)"

subsection \<open>Variant A\<close>

text \<open>
  \<open>display\<close> is \<^verbatim>\<open>box.style.display === "block"\<close>, \<open>href\<close> the last url assigned to
  \<^verbatim>\<open>window.location.href\<close>, \<open>requests\<close> the number of calls of \<^verbatim>\<open>fetch\<close> so far.
  The position of the box and the focus of the input are not modelled.
\<close>

record state_A =
  items :: "item list"
  loaded :: bool
  activeIndex :: int
  display :: bool
  box :: "item content"
  href :: "string option"
  requests :: nat

definition init_A :: state_A where
  "init_A = \<lparr>items = [], loaded = False, activeIndex = -1, display = False, box = Empty_box,
     href = None, requests = 0\<rparr>"

definition data_url :: "item \<Rightarrow> string" where
  \<comment> \<open>the attribute written as \<^verbatim>\<open>esc(r.u || "/")\<close>\<close>
  "data_url r = (if it_u r = [] then ''/'' else it_u r)"

definition openBox_A :: "'a state_A_scheme \<Rightarrow> 'a state_A_scheme" where
  "openBox_A st = st\<lparr>display := True\<rparr>"

definition closeBox_A :: "'a state_A_scheme \<Rightarrow> 'a state_A_scheme" where
  "closeBox_A st = st\<lparr>activeIndex := -1, display := False, box := Empty_box\<rparr>"

definition setActive :: "int \<Rightarrow> 'a state_A_scheme \<Rightarrow> 'a state_A_scheme" where
  "setActive i st = st\<lparr>activeIndex := i\<rparr>"

definition go_A :: "string \<Rightarrow> 'a state_A_scheme \<Rightarrow> 'a state_A_scheme" where
  "go_A url st = (if url = [] then st else st\<lparr>href := Some url\<rparr>)"

definition render_A :: "string \<Rightarrow> state_A \<Rightarrow> state_A" where
  "render_A q0 st =
     (let q = trim q0
      in if q = [] then closeBox_A st
         else
           (let top = top_A q (items st)
            in if length top = 0 then openBox_A (st\<lparr>box := No_results\<rparr>)
               else openBox_A (setActive (-1) (st\<lparr>box := Rows (map cand_it top)\<rparr>))))"

text \<open>
  Every caller passes the callback \<^verbatim>\<open>function () { render(input.value); }\<close>; \<open>v\<close> is the
  value of the input when the callback runs.
\<close>

definition ensureLoaded_A :: "string \<Rightarrow> state_A \<Rightarrow> state_A" where
  "ensureLoaded_A v st =
     (if loaded st then render_A v st
      else st\<lparr>loaded := True, requests := Suc (requests st)\<rparr>)"

definition settled_A :: "doc response \<Rightarrow> string \<Rightarrow> state_A \<Rightarrow> state_A" where
  "settled_A resp v st =
     (case resp of
        Response ok (Some data) \<Rightarrow> render_A v (st\<lparr>items := doc_items data\<rparr>)
      | _ \<Rightarrow> render_A v (st\<lparr>items := []\<rparr>))"

definition keydown_A :: "key \<Rightarrow> string \<Rightarrow> state_A \<Rightarrow> state_A" where
  "keydown_A e v st =
     (if \<not> display st then (if e = Enter then ensureLoaded_A v st else st)
      else
        (let rows = rows_of (box st)
         in if e = Escape then closeBox_A st
            else if e = ArrowDown then
              (if length rows = 0 then st
               else
                 (let next = activeIndex st + 1;
                      next = (if next \<ge> int (length rows) then int (length rows) - 1 else next)
                  in setActive next st))
            else if e = ArrowUp then
              (if length rows = 0 then st
               else
                 (let prev = activeIndex st - 1;
                      prev = (if prev < 0 then 0 else prev)
                  in setActive prev st))
            else if e = Enter then
              (if length rows = 0 then st
               else
                 (let pick = (if activeIndex st \<ge> 0 then nth_opt rows (activeIndex st)
                              else nth_opt rows 0)
                  in case pick of Some r \<Rightarrow> go_A (data_url r) st | None \<Rightarrow> st))
            else st))"

subsection \<open>Variant B\<close>

record state_B = state_A +
  loading :: bool
  opened :: bool

definition init_B :: state_B where
  "init_B = \<lparr>items = [], loaded = False, activeIndex = -1, display = False, box = Empty_box,
     href = None, requests = 0, loading = False, opened = False\<rparr>"

definition openBox_B :: "state_B \<Rightarrow> state_B" where
  "openBox_B st = st\<lparr>display := True, opened := True\<rparr>"

definition closeBox_B :: "state_B \<Rightarrow> state_B" where
  "closeBox_B st = st\<lparr>activeIndex := -1, opened := False, display := False, box := Empty_box\<rparr>"

definition go_B :: "string \<Rightarrow> state_B \<Rightarrow> state_B" where
  \<comment> \<open>the url is a string, whose conversion does not throw\<close>
  "go_B url0 st =
     (case normUrl (Str url0) of
        Inl e \<Rightarrow> st
      | Inr url \<Rightarrow> if url = [] then st else st\<lparr>href := Some url\<rparr>)"

definition render_B :: "string \<Rightarrow> state_B \<Rightarrow> state_B" where
  "render_B q0 st =
     (let q = trim q0
      in if q = [] then closeBox_B st
         else
           (let top = top_B q (items st)
            in if length top = 0 then openBox_B (st\<lparr>box := No_results\<rparr>)
               else openBox_B (setActive (-1) (st\<lparr>box := Rows (map cand_it top)\<rparr>))))"

definition ensureLoaded_B :: "string \<Rightarrow> state_B \<Rightarrow> state_B" where
  "ensureLoaded_B v st =
     (if loaded st then render_B v st
      else if loading st then render_B v st
      else st\<lparr>loading := True, requests := Suc (requests st)\<rparr>)"

text \<open>
  The \<^verbatim>\<open>catch\<close> handler runs when the request fails, when the status is not a success,
  when the body does not parse, and when \<^verbatim>\<open>normalizeData\<close> throws in the handler before.
\<close>

definition catch_B :: "string \<Rightarrow> state_B \<Rightarrow> state_B" where
  "catch_B v st = render_B v (st\<lparr>items := [], loaded := True, loading := False\<rparr>)"

definition settled_B :: "jsval response \<Rightarrow> string \<Rightarrow> state_B \<Rightarrow> state_B" where
  "settled_B resp v st =
     (case resp of
        Response True (Some data) \<Rightarrow>
          (case normalizeData data of
             Inr its \<Rightarrow> render_B v (st\<lparr>items := its, loaded := True, loading := False\<rparr>)
           | Inl e \<Rightarrow> catch_B v st)
      | _ \<Rightarrow> catch_B v st)"

definition keydown_B :: "key \<Rightarrow> string \<Rightarrow> state_B \<Rightarrow> state_B" where
  "keydown_B e v st =
     (let isOpen = (opened st \<and> display st)
      in if \<not> isOpen then
           (if e = Enter then ensureLoaded_B v st
            else if e = Escape then closeBox_B st
            else st)
         else
           (let rows = rows_of (box st)
            in if e = Escape then closeBox_B st
               else if e = ArrowDown then
                 (if length rows = 0 then st
                  else
                    (let next = activeIndex st + 1;
                         next = (if next \<ge> int (length rows) then int (length rows) - 1 else next)
                     in setActive next st))
               else if e = ArrowUp then
                 (if length rows = 0 then st
                  else
                    (let prev = activeIndex st - 1;
                         prev = (if prev < 0 then 0 else prev)
                     in setActive prev st))
               else if e = Enter then
                 (if length rows = 0 then st
                  else
                    (let pick = (if activeIndex st \<ge> 0 then nth_opt rows (activeIndex st)
                                 else nth_opt rows 0)
                     in case pick of Some r \<Rightarrow> go_B (data_url r) st | None \<Rightarrow> st))
               else st))"

subsection \<open>Variant C\<close>

text \<open>
  \<open>open_class\<close> is \<^verbatim>\<open>box.classList.contains("open")\<close>. The one request of this variant
  is made when the script starts.
\<close>

record state_C =
  indexItems :: "item list"
  ready :: bool
  active :: int
  open_class :: bool
  box_C :: "scored content"
  href_C :: "string option"

definition init_C :: state_C where
  "init_C = \<lparr>indexItems = [], ready = False, active = -1, open_class = False,
     box_C = Empty_box, href_C = None\<rparr>"

definition openBox_C :: "state_C \<Rightarrow> state_C" where
  "openBox_C st = st\<lparr>open_class := True\<rparr>"

definition closeBox_C :: "state_C \<Rightarrow> state_C" where
  "closeBox_C st = st\<lparr>open_class := False, box_C := Empty_box, active := -1\<rparr>"

definition renderEmpty :: "state_C \<Rightarrow> state_C" where
  "renderEmpty st = openBox_C (st\<lparr>box_C := No_results\<rparr>)"

definition renderList :: "scored list \<Rightarrow> state_C \<Rightarrow> state_C" where
  "renderList results st = (openBox_C (st\<lparr>box_C := Rows results\<rparr>))\<lparr>active := -1\<rparr>"

definition setActive_C :: "int \<Rightarrow> state_C \<Rightarrow> state_C" where
  "setActive_C i st =
     (if i \<ge> 0 \<and> i < int (length (rows_of (box_C st))) then st\<lparr>active := i\<rparr>
      else st\<lparr>active := -1\<rparr>)"

definition goActive :: "state_C \<Rightarrow> state_C" where
  "goActive st =
     (let rows = rows_of (box_C st)
      in if active st < 0 \<or> active st \<ge> int (length rows) then st
         else
           (let u = sc_u (rows ! nat (active st))
            in if u \<noteq> [] then st\<lparr>href_C := Some u\<rparr> else st))"

definition search :: "(string \<Rightarrow> string \<Rightarrow> int) \<Rightarrow> string \<Rightarrow> state_C \<Rightarrow> state_C" where
  "search lc q0 st =
     (let q = norm q0
      in if q = [] then closeBox_C st
         else if \<not> ready st then openBox_C (st\<lparr>box_C := Loading\<rparr>)
         else
           (let top = top_C lc q (indexItems st)
            in if length top = 0 then renderEmpty st else renderList top st))"

definition keydown_C :: "key \<Rightarrow> state_C \<Rightarrow> state_C" where
  "keydown_C e st =
     (if \<not> open_class st then st
      else
        (let rows = rows_of (box_C st)
         in if e = ArrowDown then
              (if length rows = 0 then st
               else
                 (let next = active st + 1;
                      next = (if next \<ge> int (length rows) then 0 else next)
                  in setActive_C next st))
            else if e = ArrowUp then
              (if length rows = 0 then st
               else
                 (let prev = active st - 1;
                      prev = (if prev < 0 then int (length rows) - 1 else prev)
                  in setActive_C prev st))
            else if e = Enter then (if active st \<ge> 0 then goActive st else st)
            else if e = Escape then closeBox_C st
            else st))"

definition settled_C :: "doc response \<Rightarrow> state_C \<Rightarrow> state_C" where
  "settled_C resp st =
     (case resp of
        Response ok (Some data) \<Rightarrow> st\<lparr>indexItems := doc_items data, ready := True\<rparr>
      | _ \<Rightarrow> st\<lparr>ready := False\<rparr>)"

subsection \<open>Events\<close>

text \<open>
  The events the widget listens to, with the value of the input where a handler reads it.
  A press on the box is given with the position of the row under the pointer; a position
  beyond the rows stands for a press on a message. The settling of the request is not among
  them: it is \<open>settled_A\<close>, \<open>settled_B\<close>, \<open>settled_C\<close>.
\<close>

datatype event =
    Focus string
  | Input string
  | Keydown key string
  | Press_row int
  | Press_outside

fun step_A :: "event \<Rightarrow> state_A \<Rightarrow> state_A" where
  "step_A (Focus v) st = ensureLoaded_A v st"
| "step_A (Input v) st = ensureLoaded_A v st"
| "step_A (Keydown e v) st = keydown_A e v st"
| "step_A (Press_row i) st =
     (case nth_opt (rows_of (box st)) i of Some r \<Rightarrow> go_A (data_url r) st | None \<Rightarrow> st)"
| "step_A Press_outside st = closeBox_A st"

fun step_B :: "event \<Rightarrow> state_B \<Rightarrow> state_B" where
  "step_B (Focus v) st = ensureLoaded_B v st"
| "step_B (Input v) st = ensureLoaded_B v st"
| "step_B (Keydown e v) st = keydown_B e v st"
| "step_B (Press_row i) st =
     (case nth_opt (rows_of (box st)) i of Some r \<Rightarrow> go_B (data_url r) st | None \<Rightarrow> st)"
| "step_B Press_outside st = closeBox_B st"

text \<open>Variant C has no handler for focus, and closes on a click outside.\<close>

fun step_C :: "(string \<Rightarrow> string \<Rightarrow> int) \<Rightarrow> event \<Rightarrow> state_C \<Rightarrow> state_C" where
  "step_C lc (Focus v) st = st"
| "step_C lc (Input v) st = search lc v st"
| "step_C lc (Keydown e v) st = keydown_C e st"
| "step_C lc (Press_row i) st =
     (case nth_opt (rows_of (box_C st)) i of
        Some r \<Rightarrow> (if sc_u r \<noteq> [] then st\<lparr>href_C := Some (sc_u r)\<rparr> else st)
      | None \<Rightarrow> st)"
| "step_C lc Press_outside st = closeBox_C st"

text \<open>A run: the events handled one after the other.\<close>

definition run_A :: "event list \<Rightarrow> state_A \<Rightarrow> state_A" where
  "run_A es st = foldl (\<lambda>st e. step_A e st) st es"

definition run_B :: "event list \<Rightarrow> state_B \<Rightarrow> state_B" where
  "run_B es st = foldl (\<lambda>st e. step_B e st) st es"

definition run_C :: "(string \<Rightarrow> string \<Rightarrow> int) \<Rightarrow> event list \<Rightarrow> state_C \<Rightarrow> state_C" where
  "run_C lc es st = foldl (\<lambda>st e. step_C lc e st) st es"

section \<open>Facts about strings\<close>

lemma indexOf_ge: "-1 \<le> indexOf t q"
  by (induction t) (auto simp: Let_def)

lemma indexOf_zero_iff: "indexOf t q = 0 \<longleftrightarrow> prefix q t"
proof (cases t)
  case Nil
  then show ?thesis by simp
next
  case (Cons c cs)
  have "-1 \<le> indexOf cs q" by (rule indexOf_ge)
  then show ?thesis using Cons by (auto simp: Let_def)
qed

lemma indexOf_found_iff: "indexOf t q \<noteq> -1 \<longleftrightarrow> sublist q t"
proof (induction t)
  case Nil
  then show ?case by simp
next
  case (Cons c cs)
  have "-1 \<le> indexOf cs q" by (rule indexOf_ge)
  with Cons show ?case by (auto simp: Let_def sublist_Cons_right)
qed

lemma isWhiteSpace_lower: "isWhiteSpace c \<Longrightarrow> toLowerCase_char c = c"
  by (auto simp: isWhiteSpace_def toLowerCase_char_def Let_def)

lemma dropWhile_all_iff: "(\<forall>x\<in>set (dropWhile P xs). P x) \<longleftrightarrow> (\<forall>x\<in>set xs. P x)"
  by (induction xs) auto

lemma trim_empty_iff: "trim str = [] \<longleftrightarrow> (\<forall>c\<in>set str. isWhiteSpace c)"
  by (simp add: trim_def dropWhile_eq_Nil_conv dropWhile_all_iff)

lemma norm_empty: "trim q = [] \<Longrightarrow> norm q = []"
  by (auto simp: trim_empty_iff norm_def toLowerCase_def isWhiteSpace_lower)

lemma trim_hd: "trim str \<noteq> [] \<Longrightarrow> \<not> isWhiteSpace (hd (trim str))"
proof -
  assume ne: "trim str \<noteq> []"
  define ys where "ys = dropWhile isWhiteSpace str"
  define zs where "zs = dropWhile isWhiteSpace (rev ys)"
  have t: "trim str = rev zs" by (simp add: trim_def ys_def zs_def)
  with ne have zne: "zs \<noteq> []" by simp
  obtain ws where "rev ys = ws @ zs"
    unfolding zs_def by (metis takeWhile_dropWhile_id)
  then have "ys = rev zs @ rev ws" by (metis rev_append rev_rev_ident)
  with zne have "hd ys = hd (rev zs)" and "ys \<noteq> []" by auto
  moreover have "\<not> isWhiteSpace (hd ys)" using \<open>ys \<noteq> []\<close> unfolding ys_def by (rule hd_dropWhile)
  ultimately show ?thesis using t by simp
qed

lemma trim_last: "trim str \<noteq> [] \<Longrightarrow> \<not> isWhiteSpace (last (trim str))"
proof -
  assume ne: "trim str \<noteq> []"
  define zs where "zs = dropWhile isWhiteSpace (rev (dropWhile isWhiteSpace str))"
  have t: "trim str = rev zs" by (simp add: trim_def zs_def)
  with ne have zne: "zs \<noteq> []" by simp
  then have "\<not> isWhiteSpace (hd zs)" unfolding zs_def by (rule hd_dropWhile)
  then show ?thesis using t zne by (simp add: last_rev)
qed

lemma dropWhile_keep: "xs = [] \<or> \<not> P (hd xs) \<Longrightarrow> dropWhile P xs = xs"
  by (cases xs) auto

lemma trim_fixed:
  assumes "str = [] \<or> (\<not> isWhiteSpace (hd str) \<and> \<not> isWhiteSpace (last str))"
  shows "trim str = str"
proof -
  have a: "dropWhile isWhiteSpace str = str"
    using assms by (intro dropWhile_keep) auto
  have b: "dropWhile isWhiteSpace (rev str) = rev str"
    using assms by (intro dropWhile_keep) (auto simp: hd_rev)
  show ?thesis by (simp add: trim_def a b)
qed

lemma trim_trim: "trim (trim str) = trim str"
  using trim_fixed [of "trim str"] trim_hd [of str] trim_last [of str] by blast

section \<open>Facts about the loader\<close>

lemma trim_slash: "trim ''/'' = ''/''"
  by (simp add: trim_def isWhiteSpace_def)

lemma trimmed_String_Str: "trimmed_String (Str str) = Inr (trim str)"
  by (simp add: trimmed_String_def nullish_to_empty_def)

lemma trimmed_String_trim: "trimmed_String v = Inr str \<Longrightarrow> trim str = str"
  by (auto simp: trimmed_String_def trim_trim split: sum.splits)

lemma normUrl_Str: "normUrl (Str str) = Inr (if trim str = [] then ''/'' else trim str)"
  by (simp add: normUrl_def trimmed_String_Str)

lemma normUrl_result:
  assumes "normUrl x = Inr u"
  shows "u \<noteq> [] \<and> normUrl (Str u) = Inr u"
proof (cases "trimmed_String x")
  case (Inl e)
  with assms show ?thesis by (simp add: normUrl_def)
next
  case (Inr str)
  show ?thesis
  proof (cases "str = []")
    case True
    with Inr assms have "u = ''/''" by (simp add: normUrl_def)
    then show ?thesis by (simp add: normUrl_Str trim_slash)
  next
    case False
    with Inr assms have "u = str" by (simp add: normUrl_def)
    with False trimmed_String_trim [OF Inr] show ?thesis by (simp add: normUrl_Str)
  qed
qed

lemma normalize_loop_member:
  "normalize_loop raw = Inr its \<Longrightarrow> r \<in> set its \<Longrightarrow>
     it_t r \<noteq> [] \<and> it_u r \<noteq> [] \<and> normUrl (Str (it_u r)) = Inr (it_u r)
     \<and> trim (it_t r) = it_t r"
proof (induction raw arbitrary: its)
  case Nil
  then show ?case by simp
next
  case (Cons x raw)
  show ?case
  proof (cases "truthy x")
    case False
    with Cons show ?thesis by simp
  next
    case True
    from Cons.prems(1) True obtain t d u
      where t: "trimmed_String (title_alias x) = Inr t"
        and d: "trimmed_String (description_alias x) = Inr d"
        and u: "normUrl (url_alias x) = Inr u"
      by (auto split: sum.splits)
    show ?thesis
    proof (cases "t = [] \<or> u = []")
      case True
      with Cons \<open>truthy x\<close> t d u show ?thesis by simp
    next
      case False
      with Cons.prems(1) \<open>truthy x\<close> t d u obtain out
        where out: "normalize_loop raw = Inr out"
          and its: "its = \<lparr>it_t = t, it_d = d, it_u = u\<rparr> # out"
        by (auto split: sum.splits)
      show ?thesis
      proof (cases "r = \<lparr>it_t = t, it_d = d, it_u = u\<rparr>")
        case True
        with False normUrl_result [OF u] trimmed_String_trim [OF t] show ?thesis by simp
      next
        case False
        with its Cons.prems(2) have "r \<in> set out" by simp
        with Cons.IH [OF out] show ?thesis by simp
      qed
    qed
  qed
qed

lemma normalizeData_member:
  "normalizeData data = Inr its \<Longrightarrow> r \<in> set its \<Longrightarrow>
     it_t r \<noteq> [] \<and> it_u r \<noteq> [] \<and> normUrl (Str (it_u r)) = Inr (it_u r)
     \<and> trim (it_t r) = it_t r"
  unfolding normalizeData_def Let_def by (rule normalize_loop_member)

section \<open>The keyboard and the closed state\<close>

text \<open>
  Claim C9. A query whose trimmed text is empty closes the panel in every variant and for
  every index: \<^verbatim>\<open>render\<close> and \<^verbatim>\<open>search\<close> do what \<^verbatim>\<open>closeBox\<close> does, which reads
  neither the records nor a score, and the state that results is closed, with an empty box
  and no active row. In variant C this comes before the test of \<open>ready\<close>, so no loading
  message is shown either.
\<close>

theorem empty_query_closes:
  assumes "trim q = []"
  shows "render_A q a = closeBox_A a \<and> render_B q b = closeBox_B b
    \<and> search lc q c = closeBox_C c
    \<and> \<not> display (render_A q a) \<and> box (render_A q a) = Empty_box
    \<and> activeIndex (render_A q a) = -1
    \<and> \<not> display (render_B q b) \<and> \<not> opened (render_B q b)
    \<and> box (render_B q b) = Empty_box \<and> activeIndex (render_B q b) = -1
    \<and> \<not> open_class (search lc q c) \<and> box_C (search lc q c) = Empty_box
    \<and> active (search lc q c) = -1"
  using assms norm_empty [OF assms]
  by (simp add: render_A_def render_B_def search_def closeBox_A_def closeBox_B_def
      closeBox_C_def)

theorem empty_query_closes_witness:
  "trim ''  '' = [] \<and>
   render_A ''  '' (init_A\<lparr>items := [\<lparr>it_t = ''Apple'', it_d = [], it_u = ''/a''\<rparr>],
      display := True, box := No_results\<rparr>)
    = init_A\<lparr>items := [\<lparr>it_t = ''Apple'', it_d = [], it_u = ''/a''\<rparr>]\<rparr>
   \<and> \<not> open_class (search lex_compare ''  '' (init_C\<lparr>open_class := True, box_C := Loading\<rparr>))"
proof -
  have h: "trim ''  '' = []" by (simp add: trim_def isWhiteSpace_def)
  note th = empty_query_closes [OF h, of
        "init_A\<lparr>items := [\<lparr>it_t = ''Apple'', it_d = [], it_u = ''/a''\<rparr>],
           display := True, box := No_results\<rparr>" init_B lex_compare
        "init_C\<lparr>open_class := True, box_C := Loading\<rparr>"]
  from th have "render_A ''  '' (init_A\<lparr>items := [\<lparr>it_t = ''Apple'', it_d = [], it_u = ''/a''\<rparr>],
      display := True, box := No_results\<rparr>)
    = closeBox_A (init_A\<lparr>items := [\<lparr>it_t = ''Apple'', it_d = [], it_u = ''/a''\<rparr>],
      display := True, box := No_results\<rparr>)"
    by (rule conjunct1)
  then have 1: "render_A ''  '' (init_A\<lparr>items := [\<lparr>it_t = ''Apple'', it_d = [], it_u = ''/a''\<rparr>],
      display := True, box := No_results\<rparr>)
    = init_A\<lparr>items := [\<lparr>it_t = ''Apple'', it_d = [], it_u = ''/a''\<rparr>]\<rparr>"
    by (simp add: closeBox_A_def init_A_def)
  from th have 2: "\<not> open_class (search lex_compare ''  '' (init_C\<lparr>open_class := True, box_C := Loading\<rparr>))"
    by blast
  from h 1 2 show ?thesis by blast
qed

text \<open>
  Claim C10. In variants A and B, ArrowUp on an open panel with at least one row and no
  active row makes the first row the active one.
\<close>

theorem arrow_up_without_selection:
  assumes "display a" and "rows_of (box a) \<noteq> []" and "activeIndex a = -1"
    and "opened b" and "display b" and "rows_of (box b) \<noteq> []" and "activeIndex b = -1"
  shows "keydown_A ArrowUp v a = a\<lparr>activeIndex := 0\<rparr>
    \<and> keydown_B ArrowUp w b = b\<lparr>activeIndex := 0\<rparr>"
  using assms by (simp add: keydown_A_def keydown_B_def setActive_def)

theorem arrow_up_without_selection_witness:
  "keydown_A ArrowUp [] (init_A\<lparr>display := True,
       box := Rows [\<lparr>it_t = ''Apple'', it_d = [], it_u = ''/a''\<rparr>]\<rparr>)
     = init_A\<lparr>display := True,
       box := Rows [\<lparr>it_t = ''Apple'', it_d = [], it_u = ''/a''\<rparr>], activeIndex := 0\<rparr>
   \<and> activeIndex (keydown_B ArrowUp [] (init_B\<lparr>display := True, opened := True,
       box := Rows [\<lparr>it_t = ''Apple'', it_d = [], it_u = ''/a''\<rparr>]\<rparr>)) = 0"
  using arrow_up_without_selection [of
      "init_A\<lparr>display := True, box := Rows [\<lparr>it_t = ''Apple'', it_d = [], it_u = ''/a''\<rparr>]\<rparr>"
      "init_B\<lparr>display := True, opened := True,
         box := Rows [\<lparr>it_t = ''Apple'', it_d = [], it_u = ''/a''\<rparr>]\<rparr>" "[]" "[]"]
  by (simp add: init_A_def init_B_def)

text \<open>
  Claim C8. Enter on an open panel with at least one row and no active row: variants A and
  B assign the url of the first row to \<^verbatim>\<open>window.location.href\<close>, variant C changes
  nothing. Variant B passes the url through \<^verbatim>\<open>normUrl\<close>, which returns the url of
  a normalized record as it is.
\<close>

theorem enter_without_selection:
  assumes "display a" and "rows_of (box a) = r # rs" and "activeIndex a = -1"
    and "opened b" and "display b" and "rows_of (box b) = r' # rs'" and "activeIndex b = -1"
    and "normalizeData data = Inr its" and "r' \<in> set its"
    and "open_class c" and "rows_of (box_C c) \<noteq> []" and "active c = -1"
  shows "keydown_A Enter v a = a\<lparr>href := Some (data_url r)\<rparr>
    \<and> keydown_B Enter w b = b\<lparr>href := Some (it_u r')\<rparr>
    \<and> keydown_C Enter c = c"
proof -
  have A: "keydown_A Enter v a = a\<lparr>href := Some (data_url r)\<rparr>"
    using assms(1-3) by (simp add: keydown_A_def nth_opt_def go_A_def data_url_def)
  have u: "it_u r' \<noteq> []" "normUrl (Str (it_u r')) = Inr (it_u r')"
    using normalizeData_member [OF assms(8,9)] by simp_all
  have B: "keydown_B Enter w b = b\<lparr>href := Some (it_u r')\<rparr>"
    using assms(4-7) u by (simp add: keydown_B_def nth_opt_def go_B_def data_url_def)
  have C: "keydown_C Enter c = c"
    using assms(10-12) by (simp add: keydown_C_def)
  from A B C show ?thesis by blast
qed

theorem enter_without_selection_witness:
  "href (keydown_A Enter [] (init_A\<lparr>display := True,
       box := Rows [\<lparr>it_t = ''Apple'', it_d = [], it_u = ''/a''\<rparr>]\<rparr>)) = Some ''/a''
   \<and> href (keydown_B Enter [] (init_B\<lparr>display := True, opened := True,
       box := Rows [\<lparr>it_t = ''Apple'', it_d = [], it_u = ''/a''\<rparr>]\<rparr>)) = Some ''/a''
   \<and> href_C (keydown_C Enter (init_C\<lparr>open_class := True,
       box_C := Rows [\<lparr>sc_s = 1000, sc_t = ''Apple'', sc_u = ''/a'', sc_d = []\<rparr>]\<rparr>)) = None"
proof -
  have n: "normalizeData (Arr [Obj [(''t'', Str ''Apple''), (''u'', Str ''/a'')]])
      = Inr [\<lparr>it_t = ''Apple'', it_d = [], it_u = ''/a''\<rparr>]"
    by code_simp
  have m: "\<lparr>it_t = ''Apple'', it_d = [], it_u = ''/a''\<rparr>
      \<in> set [\<lparr>it_t = ''Apple'', it_d = [], it_u = ''/a''\<rparr>]"
    by simp
  show ?thesis
    using enter_without_selection [of
      "init_A\<lparr>display := True, box := Rows [\<lparr>it_t = ''Apple'', it_d = [], it_u = ''/a''\<rparr>]\<rparr>"
      "\<lparr>it_t = ''Apple'', it_d = [], it_u = ''/a''\<rparr>" "[]"
      "init_B\<lparr>display := True, opened := True,
         box := Rows [\<lparr>it_t = ''Apple'', it_d = [], it_u = ''/a''\<rparr>]\<rparr>"
      "\<lparr>it_t = ''Apple'', it_d = [], it_u = ''/a''\<rparr>" "[]"
      "Arr [Obj [(''t'', Str ''Apple''), (''u'', Str ''/a'')]]"
      "[\<lparr>it_t = ''Apple'', it_d = [], it_u = ''/a''\<rparr>]"
      "init_C\<lparr>open_class := True,
         box_C := Rows [\<lparr>sc_s = 1000, sc_t = ''Apple'', sc_u = ''/a'', sc_d = []\<rparr>]\<rparr>"
      "[]" "[]", OF _ _ _ _ _ _ _ n m]
    by (simp add: init_A_def init_B_def init_C_def data_url_def)
qed

text \<open>
  Claim C4, as amended. On an open panel with \<open>n\<close> rows (at least one) and an active
  index \<open>i\<close> that is \<open>-1\<close> or a row, variants A and B compute the same next index for
  ArrowDown and for ArrowUp: they stay on the last row and go to (or stay on) the first.
  Variant C goes round: from the last row to the first, and from the first row or from no
  row to the last. Its next index is the one of A and B exactly when the move stays among
  the rows or there is a single row; with two rows or more, a move off an edge gives
  another index in C than in A and B.
\<close>

theorem arrow_keys_three_variants:
  assumes "display a" and "opened b" and "display b" and "open_class c"
    and "length (rows_of (box a)) = n" and "length (rows_of (box b)) = n"
    and "length (rows_of (box_C c)) = n" and "0 < n"
    and "activeIndex a = i" and "activeIndex b = i" and "active c = i"
    and "-1 \<le> i" and "i < int n"
  shows "activeIndex (keydown_A ArrowDown v a) = activeIndex (keydown_B ArrowDown w b)
    \<and> activeIndex (keydown_A ArrowUp v a) = activeIndex (keydown_B ArrowUp w b)
    \<and> activeIndex (keydown_A ArrowDown v a) = (if i + 1 < int n then i + 1 else int n - 1)
    \<and> active (keydown_C ArrowDown c) = (if i + 1 < int n then i + 1 else 0)
    \<and> activeIndex (keydown_A ArrowUp v a) = (if 1 \<le> i then i - 1 else 0)
    \<and> active (keydown_C ArrowUp c) = (if 1 \<le> i then i - 1 else int n - 1)
    \<and> (active (keydown_C ArrowDown c) = activeIndex (keydown_A ArrowDown v a)
          \<longleftrightarrow> i + 1 < int n \<or> n = 1)
    \<and> (active (keydown_C ArrowUp c) = activeIndex (keydown_A ArrowUp v a)
          \<longleftrightarrow> 1 \<le> i \<or> n = 1)"
proof -
  have ne: "rows_of (box a) \<noteq> []" "rows_of (box b) \<noteq> []" "rows_of (box_C c) \<noteq> []"
    using assms(5-8) by auto
  have A: "activeIndex (keydown_A ArrowDown v a) = (if i + 1 < int n then i + 1 else int n - 1)"
    "activeIndex (keydown_A ArrowUp v a) = (if 1 \<le> i then i - 1 else 0)"
    using assms ne by (auto simp: keydown_A_def setActive_def Let_def)
  have B: "activeIndex (keydown_B ArrowDown w b) = (if i + 1 < int n then i + 1 else int n - 1)"
    "activeIndex (keydown_B ArrowUp w b) = (if 1 \<le> i then i - 1 else 0)"
    using assms ne by (auto simp: keydown_B_def setActive_def Let_def)
  have C: "active (keydown_C ArrowDown c) = (if i + 1 < int n then i + 1 else 0)"
    "active (keydown_C ArrowUp c) = (if 1 \<le> i then i - 1 else int n - 1)"
    using assms ne by (auto simp: keydown_C_def setActive_C_def Let_def)
  have D: "active (keydown_C ArrowDown c) = activeIndex (keydown_A ArrowDown v a)
          \<longleftrightarrow> i + 1 < int n \<or> n = 1"
    unfolding A C using assms(8) by auto
  have U: "active (keydown_C ArrowUp c) = activeIndex (keydown_A ArrowUp v a)
          \<longleftrightarrow> 1 \<le> i \<or> n = 1"
    unfolding A C using assms(8) by auto
  from A B C D U show ?thesis by simp
qed

theorem arrow_keys_three_variants_witness:
  "activeIndex (keydown_A ArrowDown [] (init_A\<lparr>display := True, activeIndex := 0,
       box := Rows [\<lparr>it_t = ''Apple'', it_d = [], it_u = ''/a''\<rparr>,
                    \<lparr>it_t = ''Pear'', it_d = [], it_u = ''/p''\<rparr>]\<rparr>)) = 1
   \<and> activeIndex (keydown_B ArrowDown [] (init_B\<lparr>display := True, opened := True,
       activeIndex := 0,
       box := Rows [\<lparr>it_t = ''Apple'', it_d = [], it_u = ''/a''\<rparr>,
                    \<lparr>it_t = ''Pear'', it_d = [], it_u = ''/p''\<rparr>]\<rparr>)) = 1
   \<and> active (keydown_C ArrowDown (init_C\<lparr>open_class := True, active := 0,
       box_C := Rows [\<lparr>sc_s = 800, sc_t = ''Apple'', sc_u = ''/a'', sc_d = []\<rparr>,
                      \<lparr>sc_s = 600, sc_t = ''Pear'', sc_u = ''/p'', sc_d = []\<rparr>]\<rparr>)) = 1
   \<and> active (keydown_C ArrowDown (init_C\<lparr>open_class := True, active := 0,
       box_C := Rows [\<lparr>sc_s = 800, sc_t = ''Apple'', sc_u = ''/a'', sc_d = []\<rparr>]\<rparr>))
     = activeIndex (keydown_A ArrowDown [] (init_A\<lparr>display := True, activeIndex := 0,
       box := Rows [\<lparr>it_t = ''Apple'', it_d = [], it_u = ''/a''\<rparr>]\<rparr>))"
  using arrow_keys_three_variants [of
      "init_A\<lparr>display := True, activeIndex := 0,
       box := Rows [\<lparr>it_t = ''Apple'', it_d = [], it_u = ''/a''\<rparr>,
                    \<lparr>it_t = ''Pear'', it_d = [], it_u = ''/p''\<rparr>]\<rparr>"
      "init_B\<lparr>display := True, opened := True, activeIndex := 0,
       box := Rows [\<lparr>it_t = ''Apple'', it_d = [], it_u = ''/a''\<rparr>,
                    \<lparr>it_t = ''Pear'', it_d = [], it_u = ''/p''\<rparr>]\<rparr>"
      "init_C\<lparr>open_class := True, active := 0,
       box_C := Rows [\<lparr>sc_s = 800, sc_t = ''Apple'', sc_u = ''/a'', sc_d = []\<rparr>,
                      \<lparr>sc_s = 600, sc_t = ''Pear'', sc_u = ''/p'', sc_d = []\<rparr>]\<rparr>"
      2 0 "[]" "[]"]
    arrow_keys_three_variants [of
      "init_A\<lparr>display := True, activeIndex := 0,
       box := Rows [\<lparr>it_t = ''Apple'', it_d = [], it_u = ''/a''\<rparr>]\<rparr>"
      "init_B\<lparr>display := True, opened := True, activeIndex := 0,
       box := Rows [\<lparr>it_t = ''Apple'', it_d = [], it_u = ''/a''\<rparr>]\<rparr>"
      "init_C\<lparr>open_class := True, active := 0,
       box_C := Rows [\<lparr>sc_s = 800, sc_t = ''Apple'', sc_u = ''/a'', sc_d = []\<rparr>]\<rparr>"
      1 0 "[]" "[]"]
  by (simp add: init_A_def init_B_def init_C_def)

theorem arrow_keys_three_variants_counterexample:
  "activeIndex (keydown_A ArrowDown [] (init_A\<lparr>display := True, activeIndex := 1,
       box := Rows [\<lparr>it_t = ''Apple'', it_d = [], it_u = ''/a''\<rparr>,
                    \<lparr>it_t = ''Pear'', it_d = [], it_u = ''/p''\<rparr>]\<rparr>)) = 1
   \<and> active (keydown_C ArrowDown (init_C\<lparr>open_class := True, active := 1,
       box_C := Rows [\<lparr>sc_s = 800, sc_t = ''Apple'', sc_u = ''/a'', sc_d = []\<rparr>,
                      \<lparr>sc_s = 600, sc_t = ''Pear'', sc_u = ''/p'', sc_d = []\<rparr>]\<rparr>)) = 0"
  by (simp add: keydown_A_def keydown_C_def setActive_def setActive_C_def init_A_def init_C_def)

section \<open>The single request\<close>

lemma render_A_loader:
  "requests (render_A q st) = requests st \<and> loaded (render_A q st) = loaded st"
  by (simp add: render_A_def closeBox_A_def openBox_A_def setActive_def Let_def)

lemma render_B_loader:
  "requests (render_B q st) = requests st \<and> loaded (render_B q st) = loaded st
    \<and> loading (render_B q st) = loading st"
  by (simp add: render_B_def closeBox_B_def openBox_B_def setActive_def Let_def)

lemma ensureLoaded_A_again:
  "loaded st \<Longrightarrow>
     requests (foldl (\<lambda>st v. ensureLoaded_A v st) st vs) = requests st"
proof (induction vs arbitrary: st)
  case Nil
  then show ?case by simp
next
  case (Cons v vs)
  have "loaded (ensureLoaded_A v st)" and "requests (ensureLoaded_A v st) = requests st"
    using Cons.prems by (simp_all add: ensureLoaded_A_def render_A_loader)
  then show ?case using Cons.IH [of "ensureLoaded_A v st"] by simp
qed

lemma ensureLoaded_B_again:
  "loaded st \<or> loading st \<Longrightarrow>
     requests (foldl (\<lambda>st v. ensureLoaded_B v st) st vs) = requests st"
proof (induction vs arbitrary: st)
  case Nil
  then show ?case by simp
next
  case (Cons v vs)
  have "loaded (ensureLoaded_B v st) \<or> loading (ensureLoaded_B v st)"
    and "requests (ensureLoaded_B v st) = requests st"
    using Cons.prems by (auto simp: ensureLoaded_B_def render_B_loader)
  then show ?case using Cons.IH [of "ensureLoaded_B v st"] by simp
qed

text \<open>
  Claim C7. Calls of \<^verbatim>\<open>ensureLoaded\<close> that follow one another with no settling of the
  request in between, from a state in which nothing has been requested: however many they
  are, the number of calls of \<^verbatim>\<open>fetch\<close> goes up by exactly one, in variant A and in
  variant B. From the initial state it is one.
\<close>

theorem one_request_before_settling:
  assumes "vs \<noteq> []" and "\<not> loaded a" and "\<not> loaded b" and "\<not> loading b"
  shows "requests (foldl (\<lambda>st v. ensureLoaded_A v st) a vs) = Suc (requests a)
    \<and> requests (foldl (\<lambda>st v. ensureLoaded_B v st) b vs) = Suc (requests b)"
proof -
  obtain v ws where vs: "vs = v # ws" using assms(1) by (cases vs) auto
  have A: "requests (foldl (\<lambda>st v. ensureLoaded_A v st) a vs) = Suc (requests a)"
    using assms(2) ensureLoaded_A_again [of "ensureLoaded_A v a" ws]
    by (simp add: vs ensureLoaded_A_def)
  have B: "requests (foldl (\<lambda>st v. ensureLoaded_B v st) b vs) = Suc (requests b)"
    using assms(3,4) ensureLoaded_B_again [of "ensureLoaded_B v b" ws]
    by (simp add: vs ensureLoaded_B_def)
  from A B show ?thesis by blast
qed

theorem one_request_before_settling_witness:
  "requests (foldl (\<lambda>st v. ensureLoaded_A v st) init_A [''a'', ''ap'', ''app'']) = 1
   \<and> requests (foldl (\<lambda>st v. ensureLoaded_B v st) init_B [''a'', ''ap'', ''app'']) = 1"
  using one_request_before_settling [of "[''a'', ''ap'', ''app'']" init_A init_B]
  by (simp add: init_A_def init_B_def)

section \<open>Scores\<close>

lemma toLowerCase_Nil_iff: "toLowerCase q = [] \<longleftrightarrow> q = []"
  by (simp add: toLowerCase_def)

lemma lower_not_space: "\<not> isWhiteSpace c \<Longrightarrow> \<not> isWhiteSpace (toLowerCase_char c)"
  by (auto simp: isWhiteSpace_def toLowerCase_char_def Let_def)

lemma isWhiteSpace_lower_iff: "isWhiteSpace (toLowerCase_char c) \<longleftrightarrow> isWhiteSpace c"
  using lower_not_space [of c] isWhiteSpace_lower [of c] by auto

lemma norm_nonempty: "trim q \<noteq> [] \<Longrightarrow> norm q \<noteq> []"
  using lower_not_space by (simp add: trim_empty_iff norm_def toLowerCase_def) blast

lemma toLowerCase_trim: "toLowerCase (trim str) = norm str"
proof -
  have c: "isWhiteSpace \<circ> toLowerCase_char = isWhiteSpace"
    by (rule ext) (simp add: isWhiteSpace_lower_iff)
  show ?thesis
    by (simp add: norm_def trim_def toLowerCase_def rev_map dropWhile_map c)
qed

lemma strip_end_rev: "strip_end str = rev (dropWhile isWhiteSpace (rev str))"
  by (induction str) (auto simp: Let_def dropWhile_append)

lemma normal_form_norm: "normal_form str = norm str"
  by (simp add: normal_form_def norm_def trim_def toLowerCase_def strip_end_rev)

lemma match_kind_of_norm:
  "match_kind_of q it = kind_of (norm q) (norm (it_t it)) (norm (it_d it))"
  by (simp add: match_kind_of_def normal_form_norm)

lemma normal_form_nonempty: "normal_form q \<noteq> [] \<Longrightarrow> trim q \<noteq> []"
  using norm_empty [of q] by (auto simp: normal_form_norm)

lemma norm_ends:
  "norm q \<noteq> [] \<Longrightarrow> \<not> isWhiteSpace (hd (norm q)) \<and> \<not> isWhiteSpace (last (norm q))"
  unfolding norm_def using trim_hd trim_last by blast

text \<open>A string that neither starts nor ends with white space occurs in the trimmed text
  where it occurs in the text.\<close>

lemma sublist_dropWhile:
  assumes "q \<noteq> []" and "\<not> P (hd q)" and "sublist q t"
  shows "sublist q (dropWhile P t)"
proof -
  from assms(3) obtain ps ss where t: "t = ps @ q @ ss" by (auto simp: sublist_def)
  have "sublist q (dropWhile P (ps @ q @ ss))"
  proof (induction ps)
    case Nil
    from assms(1,2) have "dropWhile P (q @ ss) = q @ ss" by (cases q) auto
    then show ?case by simp
  next
    case (Cons p ps)
    show ?case
    proof (cases "P p")
      case True
      with Cons show ?thesis by simp
    next
      case False
      then have "dropWhile P ((p # ps) @ q @ ss) = (p # ps) @ q @ ss" by simp
      then show ?thesis by (metis sublist_appendI)
    qed
  qed
  with t show ?thesis by simp
qed

lemma sublist_trim_iff:
  assumes "q \<noteq> []" and "\<not> isWhiteSpace (hd q)" and "\<not> isWhiteSpace (last q)"
  shows "sublist q (trim t) \<longleftrightarrow> sublist q t"
proof
  assume "sublist q (trim t)"
  then have "sublist (rev q) (dropWhile isWhiteSpace (rev (dropWhile isWhiteSpace t)))"
    by (simp add: trim_def sublist_rev_right)
  moreover have "sublist (dropWhile isWhiteSpace (rev (dropWhile isWhiteSpace t)))
      (rev (dropWhile isWhiteSpace t))"
    by (rule suffix_imp_sublist) (rule suffix_dropWhile)
  ultimately have "sublist (rev q) (rev (dropWhile isWhiteSpace t))"
    by (rule sublist_order.order.trans)
  then have "sublist q (dropWhile isWhiteSpace t)" by simp
  moreover have "sublist (dropWhile isWhiteSpace t) t"
    by (rule suffix_imp_sublist) (rule suffix_dropWhile)
  ultimately show "sublist q t" by (rule sublist_order.order.trans)
next
  assume "sublist q t"
  then have "sublist q (dropWhile isWhiteSpace t)"
    using assms(1,2) by (intro sublist_dropWhile)
  then have "sublist (rev q) (rev (dropWhile isWhiteSpace t))" by simp
  moreover have "rev q \<noteq> []" and "\<not> isWhiteSpace (hd (rev q))"
    using assms(1,3) by (simp_all add: hd_rev)
  ultimately have "sublist (rev q) (dropWhile isWhiteSpace (rev (dropWhile isWhiteSpace t)))"
    by (intro sublist_dropWhile)
  then show "sublist q (trim t)" by (simp add: trim_def sublist_rev_right)
qed

lemma kind_of_No_match: "kind_of q t d = No_match \<longleftrightarrow> \<not> sublist q t \<and> \<not> sublist q d"
  by (auto simp: kind_of_def)

lemma kind_of_Description:
  "kind_of q t d = Description_substring \<longleftrightarrow> \<not> sublist q t \<and> sublist q d"
  by (auto simp: kind_of_def)

lemma kind_of_trim_description:
  assumes "q \<noteq> []" and "\<not> isWhiteSpace (hd q)" and "\<not> isWhiteSpace (last q)"
  shows "kind_of q t (trim d) = kind_of q t d"
  by (simp add: kind_of_def sublist_trim_iff [OF assms])

text \<open>
  What variants A and B compare is the case-folded title and description as they are. For a
  title without white space around it that is the kind of match of the record.
\<close>

lemma untrimmed_kind:
  assumes "trim q0 \<noteq> []" and "trim (it_t x) = it_t x"
  shows "kind_of (norm q0) (toLowerCase (it_t x)) (toLowerCase (it_d x)) = match_kind_of q0 x"
proof -
  have t: "norm (it_t x) = toLowerCase (it_t x)"
    using toLowerCase_trim [of "it_t x"] assms(2) by simp
  have d: "kind_of (norm q0) (toLowerCase (it_t x)) (norm (it_d x))
      = kind_of (norm q0) (toLowerCase (it_t x)) (toLowerCase (it_d x))"
    unfolding norm_def [of "it_d x"]
    using norm_nonempty [OF assms(1)] norm_ends [of q0]
    by (intro kind_of_trim_description) simp_all
  show ?thesis unfolding match_kind_of_norm t d ..
qed

lemma untrimmed_kind_low:
  assumes "trim q0 \<noteq> []"
  shows "(kind_of (norm q0) (toLowerCase (it_t x)) (toLowerCase (it_d x)) = No_match
          \<longleftrightarrow> match_kind_of q0 x = No_match)
    \<and> (kind_of (norm q0) (toLowerCase (it_t x)) (toLowerCase (it_d x)) = Description_substring
          \<longleftrightarrow> match_kind_of q0 x = Description_substring)"
proof -
  have e: "norm q0 \<noteq> []" "\<not> isWhiteSpace (hd (norm q0))" "\<not> isWhiteSpace (last (norm q0))"
    using norm_nonempty [OF assms] norm_ends [of q0] by simp_all
  have "sublist (norm q0) (norm (it_t x)) \<longleftrightarrow> sublist (norm q0) (toLowerCase (it_t x))"
    and "sublist (norm q0) (norm (it_d x)) \<longleftrightarrow> sublist (norm q0) (toLowerCase (it_d x))"
    unfolding norm_def [of "it_t x"] norm_def [of "it_d x"]
    by (rule sublist_trim_iff [OF e])+
  then show ?thesis
    by (simp add: match_kind_of_norm kind_of_No_match kind_of_Description)
qed

lemma score_A_kind:
  "q \<noteq> [] \<Longrightarrow> score_A q t d =
     (case kind_of (toLowerCase q) (toLowerCase t) (toLowerCase d) of
        Exact_title \<Rightarrow> 1000 | Title_prefix \<Rightarrow> 800 | Title_substring \<Rightarrow> 600
      | Description_substring \<Rightarrow> 300 | No_match \<Rightarrow> 0)"
  using indexOf_found_iff [of "toLowerCase t" "toLowerCase q"]
    indexOf_found_iff [of "toLowerCase d" "toLowerCase q"]
  by (simp add: score_A_def kind_of_def Let_def toLowerCase_Nil_iff indexOf_zero_iff)

lemma score_B_kind:
  "q \<noteq> [] \<Longrightarrow> score_B q t d =
     (case kind_of (toLowerCase q) (toLowerCase t) (toLowerCase d) of
        Exact_title \<Rightarrow> 1000 | Title_prefix \<Rightarrow> 850 | Title_substring \<Rightarrow> 650
      | Description_substring \<Rightarrow> 300 | No_match \<Rightarrow> 0)"
  using indexOf_found_iff [of "toLowerCase t" "toLowerCase q"]
    indexOf_found_iff [of "toLowerCase d" "toLowerCase q"]
  by (simp add: score_B_def kind_of_def Let_def toLowerCase_Nil_iff indexOf_zero_iff)

lemma scoreItem_kind:
  "q \<noteq> [] \<Longrightarrow> scoreItem q x =
     (case kind_of q (norm (it_t x)) (norm (it_d x)) of
        Exact_title \<Rightarrow> 1000 | Title_prefix \<Rightarrow> 800 | Title_substring \<Rightarrow> 600
      | Description_substring \<Rightarrow> 300 | No_match \<Rightarrow> -1)"
  using indexOf_found_iff [of "norm (it_t x)" q] indexOf_found_iff [of "norm (it_d x)" q]
  by (auto simp: scoreItem_def kind_of_def Let_def indexOf_zero_iff)

lemma score_A_untrimmed:
  "trim q0 \<noteq> [] \<Longrightarrow> score_A (trim q0) t d =
     (case kind_of (norm q0) (toLowerCase t) (toLowerCase d) of
        Exact_title \<Rightarrow> 1000 | Title_prefix \<Rightarrow> 800 | Title_substring \<Rightarrow> 600
      | Description_substring \<Rightarrow> 300 | No_match \<Rightarrow> 0)"
  by (simp add: score_A_kind toLowerCase_trim)

lemma score_B_untrimmed:
  "trim q0 \<noteq> [] \<Longrightarrow> score_B (trim q0) t d =
     (case kind_of (norm q0) (toLowerCase t) (toLowerCase d) of
        Exact_title \<Rightarrow> 1000 | Title_prefix \<Rightarrow> 850 | Title_substring \<Rightarrow> 650
      | Description_substring \<Rightarrow> 300 | No_match \<Rightarrow> 0)"
  by (simp add: score_B_kind toLowerCase_trim)

lemma scoreItem_match_kind:
  "trim q0 \<noteq> [] \<Longrightarrow> scoreItem (norm q0) x =
     (case match_kind_of q0 x of
        Exact_title \<Rightarrow> 1000 | Title_prefix \<Rightarrow> 800 | Title_substring \<Rightarrow> 600
      | Description_substring \<Rightarrow> 300 | No_match \<Rightarrow> -1)"
  by (simp add: scoreItem_kind norm_nonempty match_kind_of_norm)

lemma collect_A_kind:
  assumes "trim q0 \<noteq> []"
  shows "map cand_it (collect_A (trim q0) its)
    = filter (\<lambda>it. match_kind_of q0 it \<noteq> No_match) its"
proof (induction its)
  case Nil
  then show ?case by simp
next
  case (Cons x its)
  have "0 < score_A (trim q0) (it_t x) (it_d x)
      \<longleftrightarrow> kind_of (norm q0) (toLowerCase (it_t x)) (toLowerCase (it_d x)) \<noteq> No_match"
    by (simp add: score_A_untrimmed [OF assms] split: match_kind.splits)
  then have "0 < score_A (trim q0) (it_t x) (it_d x) \<longleftrightarrow> match_kind_of q0 x \<noteq> No_match"
    using untrimmed_kind_low [OF assms, of x] by blast
  with Cons show ?case by (simp add: Let_def)
qed

lemma collect_B_kind:
  assumes "trim q0 \<noteq> []"
  shows "map cand_it (collect_B (trim q0) its)
    = filter (\<lambda>it. match_kind_of q0 it \<noteq> No_match) its"
proof (induction its)
  case Nil
  then show ?case by simp
next
  case (Cons x its)
  have "0 < score_B (trim q0) (it_t x) (it_d x)
      \<longleftrightarrow> kind_of (norm q0) (toLowerCase (it_t x)) (toLowerCase (it_d x)) \<noteq> No_match"
    by (simp add: score_B_untrimmed [OF assms] split: match_kind.splits)
  then have "0 < score_B (trim q0) (it_t x) (it_d x) \<longleftrightarrow> match_kind_of q0 x \<noteq> No_match"
    using untrimmed_kind_low [OF assms, of x] by blast
  with Cons show ?case by (simp add: Let_def)
qed

lemma collect_C_kind:
  assumes "trim q0 \<noteq> []"
  shows "map scored_item (collect_C (norm q0) its)
    = filter (\<lambda>it. match_kind_of q0 it \<noteq> No_match) its"
proof (induction its)
  case Nil
  then show ?case by simp
next
  case (Cons x its)
  have "0 \<le> scoreItem (norm q0) x \<longleftrightarrow> match_kind_of q0 x \<noteq> No_match"
    by (simp add: scoreItem_match_kind [OF assms] split: match_kind.splits)
  with Cons show ?case by (simp add: Let_def scored_item_def)
qed

lemma score_A_mono:
  assumes "trim q0 \<noteq> []"
    and "kind_rank (kind_of (norm q0) (toLowerCase t) (toLowerCase d))
       < kind_rank (kind_of (norm q0) (toLowerCase t') (toLowerCase d'))"
  shows "score_A (trim q0) t d < score_A (trim q0) t' d'"
  using assms(2)
  by (cases "kind_of (norm q0) (toLowerCase t) (toLowerCase d)";
      cases "kind_of (norm q0) (toLowerCase t') (toLowerCase d')")
    (simp_all add: score_A_untrimmed [OF assms(1)])

lemma score_B_mono:
  assumes "trim q0 \<noteq> []"
    and "kind_rank (kind_of (norm q0) (toLowerCase t) (toLowerCase d))
       < kind_rank (kind_of (norm q0) (toLowerCase t') (toLowerCase d'))"
  shows "score_B (trim q0) t d < score_B (trim q0) t' d'"
  using assms(2)
  by (cases "kind_of (norm q0) (toLowerCase t) (toLowerCase d)";
      cases "kind_of (norm q0) (toLowerCase t') (toLowerCase d')")
    (simp_all add: score_B_untrimmed [OF assms(1)])

lemma untrimmed_rank_low:
  assumes "trim q0 \<noteq> []" and "kind_rank (match_kind_of q0 x) \<le> 1"
    and "kind_rank (match_kind_of q0 x) < kind_rank (match_kind_of q0 y)"
  shows "kind_rank (kind_of (norm q0) (toLowerCase (it_t x)) (toLowerCase (it_d x)))
       < kind_rank (kind_of (norm q0) (toLowerCase (it_t y)) (toLowerCase (it_d y)))"
  using untrimmed_kind_low [OF assms(1), of x] untrimmed_kind_low [OF assms(1), of y] assms(2,3)
  by (cases "match_kind_of q0 x"; cases "match_kind_of q0 y";
      cases "kind_of (norm q0) (toLowerCase (it_t y)) (toLowerCase (it_d y))")
    simp_all

text \<open>
  Claim C5, as amended. The query is not empty in its normal form, and the kind of match of
  a record is taken on the case-folded, trimmed query, title and description. In variant C
  the score follows the kind of match: of two records, the one whose match is of a better
  kind (exact title, then title prefix, then title substring, then description substring,
  then none) has the strictly higher score. Variants A and B case-fold the title but do not
  trim it. For them the score follows the kind of match on records whose titles have no
  white space around them, as all records have that variant B loads; on every record a match
  in the title scores higher than a match in the description only, which scores higher than
  none; and in general the score follows the kind of match of the title as it is. In every
  variant the candidates are exactly the records with some match, in the order of the index:
  a record with none gets no entry.
\<close>

theorem score_follows_match_kind:
  assumes "normal_form q0 \<noteq> []"
  shows "(kind_rank (match_kind_of q0 x) < kind_rank (match_kind_of q0 y) \<longrightarrow>
            scoreItem (norm q0) x < scoreItem (norm q0) y)
    \<and> (trim (it_t x) = it_t x \<and> trim (it_t y) = it_t y
          \<and> kind_rank (match_kind_of q0 x) < kind_rank (match_kind_of q0 y) \<longrightarrow>
            score_A (trim q0) (it_t x) (it_d x) < score_A (trim q0) (it_t y) (it_d y))
    \<and> (trim (it_t x) = it_t x \<and> trim (it_t y) = it_t y
          \<and> kind_rank (match_kind_of q0 x) < kind_rank (match_kind_of q0 y) \<longrightarrow>
            score_B (trim q0) (it_t x) (it_d x) < score_B (trim q0) (it_t y) (it_d y))
    \<and> (normalizeData data = Inr recs \<and> r \<in> set recs \<longrightarrow> trim (it_t r) = it_t r)
    \<and> (kind_rank (match_kind_of q0 x) \<le> 1
          \<and> kind_rank (match_kind_of q0 x) < kind_rank (match_kind_of q0 y) \<longrightarrow>
            score_A (trim q0) (it_t x) (it_d x) < score_A (trim q0) (it_t y) (it_d y))
    \<and> (kind_rank (match_kind_of q0 x) \<le> 1
          \<and> kind_rank (match_kind_of q0 x) < kind_rank (match_kind_of q0 y) \<longrightarrow>
            score_B (trim q0) (it_t x) (it_d x) < score_B (trim q0) (it_t y) (it_d y))
    \<and> (kind_rank (kind_of (normal_form q0) (toLowerCase (it_t x)) (toLowerCase (it_d x)))
          < kind_rank (kind_of (normal_form q0) (toLowerCase (it_t y)) (toLowerCase (it_d y))) \<longrightarrow>
            score_A (trim q0) (it_t x) (it_d x) < score_A (trim q0) (it_t y) (it_d y))
    \<and> (kind_rank (kind_of (normal_form q0) (toLowerCase (it_t x)) (toLowerCase (it_d x)))
          < kind_rank (kind_of (normal_form q0) (toLowerCase (it_t y)) (toLowerCase (it_d y))) \<longrightarrow>
            score_B (trim q0) (it_t x) (it_d x) < score_B (trim q0) (it_t y) (it_d y))
    \<and> map cand_it (collect_A (trim q0) its) = filter (\<lambda>it. match_kind_of q0 it \<noteq> No_match) its
    \<and> map cand_it (collect_B (trim q0) its) = filter (\<lambda>it. match_kind_of q0 it \<noteq> No_match) its
    \<and> map scored_item (collect_C (norm q0) its)
        = filter (\<lambda>it. match_kind_of q0 it \<noteq> No_match) its"
proof -
  note assms = normal_form_nonempty [OF assms]
  note nf = normal_form_norm [of q0]
  have C: "kind_rank (match_kind_of q0 x) < kind_rank (match_kind_of q0 y) \<longrightarrow>
            scoreItem (norm q0) x < scoreItem (norm q0) y"
    by (cases "match_kind_of q0 x"; cases "match_kind_of q0 y")
      (simp_all add: scoreItem_match_kind [OF assms])
  have A1: "trim (it_t x) = it_t x \<and> trim (it_t y) = it_t y
          \<and> kind_rank (match_kind_of q0 x) < kind_rank (match_kind_of q0 y) \<longrightarrow>
            score_A (trim q0) (it_t x) (it_d x) < score_A (trim q0) (it_t y) (it_d y)"
    using score_A_mono [OF assms, of "it_t x" "it_d x" "it_t y" "it_d y"]
      untrimmed_kind [OF assms, of x] untrimmed_kind [OF assms, of y]
    by simp
  have B1: "trim (it_t x) = it_t x \<and> trim (it_t y) = it_t y
          \<and> kind_rank (match_kind_of q0 x) < kind_rank (match_kind_of q0 y) \<longrightarrow>
            score_B (trim q0) (it_t x) (it_d x) < score_B (trim q0) (it_t y) (it_d y)"
    using score_B_mono [OF assms, of "it_t x" "it_d x" "it_t y" "it_d y"]
      untrimmed_kind [OF assms, of x] untrimmed_kind [OF assms, of y]
    by simp
  have N: "normalizeData data = Inr recs \<and> r \<in> set recs \<longrightarrow> trim (it_t r) = it_t r"
    using normalizeData_member [of data recs r] by blast
  have A2: "kind_rank (match_kind_of q0 x) \<le> 1
          \<and> kind_rank (match_kind_of q0 x) < kind_rank (match_kind_of q0 y) \<longrightarrow>
            score_A (trim q0) (it_t x) (it_d x) < score_A (trim q0) (it_t y) (it_d y)"
    using score_A_mono [OF assms, of "it_t x" "it_d x" "it_t y" "it_d y"]
      untrimmed_rank_low [OF assms, of x y]
    by blast
  have B2: "kind_rank (match_kind_of q0 x) \<le> 1
          \<and> kind_rank (match_kind_of q0 x) < kind_rank (match_kind_of q0 y) \<longrightarrow>
            score_B (trim q0) (it_t x) (it_d x) < score_B (trim q0) (it_t y) (it_d y)"
    using score_B_mono [OF assms, of "it_t x" "it_d x" "it_t y" "it_d y"]
      untrimmed_rank_low [OF assms, of x y]
    by blast
  have A3: "kind_rank (kind_of (normal_form q0) (toLowerCase (it_t x)) (toLowerCase (it_d x)))
          < kind_rank (kind_of (normal_form q0) (toLowerCase (it_t y)) (toLowerCase (it_d y))) \<longrightarrow>
            score_A (trim q0) (it_t x) (it_d x) < score_A (trim q0) (it_t y) (it_d y)"
    unfolding nf using score_A_mono [OF assms] by blast
  have B3: "kind_rank (kind_of (normal_form q0) (toLowerCase (it_t x)) (toLowerCase (it_d x)))
          < kind_rank (kind_of (normal_form q0) (toLowerCase (it_t y)) (toLowerCase (it_d y))) \<longrightarrow>
            score_B (trim q0) (it_t x) (it_d x) < score_B (trim q0) (it_t y) (it_d y)"
    unfolding nf using score_B_mono [OF assms] by blast
  note O = collect_A_kind [OF assms, of its] collect_B_kind [OF assms, of its]
    collect_C_kind [OF assms, of its]
  from C A1 B1 N A2 B2 A3 B3 O show ?thesis by (intro conjI)
qed

theorem score_follows_match_kind_counterexample:
  "match_kind_of ''apple'' \<lparr>it_t = '' Apple'', it_d = [], it_u = ''/a''\<rparr> = Exact_title
   \<and> match_kind_of ''apple'' \<lparr>it_t = ''Apple Pie'', it_d = [], it_u = ''/p''\<rparr> = Title_prefix
   \<and> trim ''apple'' = ''apple''
   \<and> score_A ''apple'' '' Apple'' [] = 600
   \<and> score_A ''apple'' ''Apple Pie'' [] = 800"
  by code_simp

theorem score_follows_match_kind_witness:
  "score_A ''Apple'' ''Apple Pie'' [] < score_A ''Apple'' ''Apple'' []
   \<and> score_B ''Apple'' ''Apple Pie'' [] < score_B ''Apple'' ''Apple'' []
   \<and> scoreItem ''apple'' \<lparr>it_t = '' Apple Pie'', it_d = [], it_u = ''/a''\<rparr>
       < scoreItem ''apple'' \<lparr>it_t = '' Apple '', it_d = [], it_u = ''/b''\<rparr>
   \<and> score_A ''Apple'' ''Pear'' ''An apple'' < score_A ''Apple'' '' Apple'' []
   \<and> map cand_it (collect_A ''Apple''
        [\<lparr>it_t = ''Apple Pie'', it_d = [], it_u = ''/a''\<rparr>,
         \<lparr>it_t = ''Pear'', it_d = ''a fruit'', it_u = ''/p''\<rparr>])
       = [\<lparr>it_t = ''Apple Pie'', it_d = [], it_u = ''/a''\<rparr>]"
proof -
  have q: "normal_form '' Apple '' \<noteq> []" "trim '' Apple '' = ''Apple''"
    "norm '' Apple '' = ''apple''"
    by code_simp+
  have k: "match_kind_of '' Apple '' \<lparr>it_t = ''Apple Pie'', it_d = [], it_u = ''/a''\<rparr> = Title_prefix"
    "match_kind_of '' Apple '' \<lparr>it_t = ''Apple'', it_d = [], it_u = ''/b''\<rparr> = Exact_title"
    "match_kind_of '' Apple '' \<lparr>it_t = '' Apple Pie'', it_d = [], it_u = ''/a''\<rparr> = Title_prefix"
    "match_kind_of '' Apple '' \<lparr>it_t = '' Apple '', it_d = [], it_u = ''/b''\<rparr> = Exact_title"
    "match_kind_of '' Apple '' \<lparr>it_t = ''Pear'', it_d = ''An apple'', it_u = ''/p''\<rparr>
       = Description_substring"
    "match_kind_of '' Apple '' \<lparr>it_t = '' Apple'', it_d = [], it_u = ''/a''\<rparr> = Exact_title"
    "match_kind_of '' Apple '' \<lparr>it_t = ''Pear'', it_d = ''a fruit'', it_u = ''/p''\<rparr> = No_match"
    by code_simp+
  have t: "trim ''Apple Pie'' = ''Apple Pie''" "trim ''Apple'' = ''Apple''"
    by code_simp+
  have 1: "score_A ''Apple'' ''Apple Pie'' [] < score_A ''Apple'' ''Apple'' []
      \<and> score_B ''Apple'' ''Apple Pie'' [] < score_B ''Apple'' ''Apple'' []"
    using score_follows_match_kind [OF q(1), of
        "\<lparr>it_t = ''Apple Pie'', it_d = [], it_u = ''/a''\<rparr>"
        "\<lparr>it_t = ''Apple'', it_d = [], it_u = ''/b''\<rparr>"]
    by (simp add: k t q)
  have 2: "scoreItem ''apple'' \<lparr>it_t = '' Apple Pie'', it_d = [], it_u = ''/a''\<rparr>
       < scoreItem ''apple'' \<lparr>it_t = '' Apple '', it_d = [], it_u = ''/b''\<rparr>"
    using score_follows_match_kind [OF q(1), of
        "\<lparr>it_t = '' Apple Pie'', it_d = [], it_u = ''/a''\<rparr>"
        "\<lparr>it_t = '' Apple '', it_d = [], it_u = ''/b''\<rparr>"]
    by (simp add: k q)
  have 3: "score_A ''Apple'' ''Pear'' ''An apple'' < score_A ''Apple'' '' Apple'' []"
    using score_follows_match_kind [OF q(1), of
        "\<lparr>it_t = ''Pear'', it_d = ''An apple'', it_u = ''/p''\<rparr>"
        "\<lparr>it_t = '' Apple'', it_d = [], it_u = ''/a''\<rparr>"]
    by (simp add: k q)
  have 4: "map cand_it (collect_A ''Apple''
        [\<lparr>it_t = ''Apple Pie'', it_d = [], it_u = ''/a''\<rparr>,
         \<lparr>it_t = ''Pear'', it_d = ''a fruit'', it_u = ''/p''\<rparr>])
       = [\<lparr>it_t = ''Apple Pie'', it_d = [], it_u = ''/a''\<rparr>]"
    using score_follows_match_kind [OF q(1), of _ _ _ _ _
        "[\<lparr>it_t = ''Apple Pie'', it_d = [], it_u = ''/a''\<rparr>,
          \<lparr>it_t = ''Pear'', it_d = ''a fruit'', it_u = ''/p''\<rparr>]"]
    by (simp add: k q)
  from 1 2 3 4 show ?thesis by blast
qed

section \<open>Normalized records\<close>

lemma render_A_items: "items (render_A q st) = items st"
  by (simp add: render_A_def closeBox_A_def openBox_A_def setActive_def Let_def)

lemma render_B_items: "items (render_B q st) = items st"
  by (simp add: render_B_def closeBox_B_def openBox_B_def setActive_def Let_def)

lemma items_catch_B: "items (catch_B v st) = []"
  by (simp add: catch_B_def render_B_items)

lemma normalize_loop_append:
  "normalize_loop (xs @ ys) =
     (case normalize_loop xs of
        Inl e \<Rightarrow> Inl e
      | Inr a \<Rightarrow> (case normalize_loop ys of Inl e \<Rightarrow> Inl e | Inr b \<Rightarrow> Inr (a @ b)))"
  by (induction xs) (auto split: sum.splits)

lemma normalizeData_Arr: "normalizeData (Arr xs) = normalize_loop xs"
  by (simp add: normalizeData_def)

text \<open>An entry that the loop skips as falsy has no title in any case.\<close>

lemma resolved_falsy:
  "\<not> truthy x \<Longrightarrow>
     resolved_title x = Inr [] \<and> resolved_description x = Inr [] \<and> resolved_url x = Inr []"
  by (cases x)
    (simp_all add: resolved_title_def resolved_description_def resolved_url_def title_alias_def
      description_alias_def url_alias_def js_or_def trimmed_String_def nullish_to_empty_def
      trim_def)

lemma normUrl_resolved:
  "resolved_url x = Inr u \<Longrightarrow> normUrl (url_alias x) = Inr (if u = [] then ''/'' else u)"
  by (simp add: resolved_url_def normUrl_def)

lemma normalize_loop_dropped:
  assumes "resolved_title x = Inr []" and "resolved_description x = Inr d"
    and "resolved_url x = Inr u"
  shows "normalize_loop (x # post) = normalize_loop post"
  using assms normUrl_resolved [OF assms(3)]
  by (simp add: resolved_title_def resolved_description_def)

lemma normalize_loop_default_url:
  assumes "truthy x" and "resolved_title x = Inr t" and "t \<noteq> []"
    and "resolved_description x = Inr d" and "resolved_url x = Inr []"
  shows "normalize_loop (x # post) =
     (case normalize_loop post of
        Inl e \<Rightarrow> Inl e
      | Inr out \<Rightarrow> Inr (\<lparr>it_t = t, it_d = d, it_u = ''/''\<rparr> # out))"
  using assms normUrl_resolved [OF assms(5)]
  by (simp add: resolved_title_def resolved_description_def)

lemma normalize_loop_throws:
  assumes "truthy x"
    and "resolved_title x = Inl e \<or> resolved_description x = Inl e \<or> resolved_url x = Inl e"
  shows "normalize_loop (x # post) = Inl TypeError"
proof -
  have u: "resolved_url x = Inl e \<Longrightarrow> normUrl (url_alias x) = Inl e"
    by (simp add: resolved_url_def normUrl_def)
  have T: "\<And>e'. (e' :: error) = TypeError" by (case_tac e') simp
  show ?thesis
    using assms u
    by (auto simp: resolved_title_def resolved_description_def T split: sum.splits)
qed

text \<open>
  Claim C3, as amended. Variant B is the one that normalizes. Every record it loads has a
  non-empty title and a non-empty url, whatever the response. Where no conversion to a
  string throws: an entry whose resolved title is empty is dropped, wherever it stands in
  the array, and an entry with a title whose url resolves to the empty string, an absent url
  included, is not dropped but loaded with the url \<^verbatim>\<open>"/"\<close>. Where the conversion of a
  field of some entry throws, \<^verbatim>\<open>normalizeData\<close> throws and the list is left empty.
\<close>

theorem normalized_records:
  "(normalizeData data = Inr recs \<longrightarrow> (\<forall>r\<in>set recs. it_t r \<noteq> [] \<and> it_u r \<noteq> []))
   \<and> (\<forall>r\<in>set (items (settled_B resp v st)). it_t r \<noteq> [] \<and> it_u r \<noteq> [])
   \<and> (resolved_title x = Inr [] \<and> resolved_description x = Inr d \<and> resolved_url x = Inr u \<longrightarrow>
        normalizeData (Arr (pre @ x # post)) = normalizeData (Arr (pre @ post)))
   \<and> (truthy x \<and> resolved_title x = Inr t \<and> t \<noteq> [] \<and> resolved_description x = Inr d
        \<and> resolved_url x = Inr []
        \<and> normalizeData (Arr pre) = Inr before \<and> normalizeData (Arr post) = Inr after \<longrightarrow>
        normalizeData (Arr (pre @ x # post))
          = Inr (before @ \<lparr>it_t = t, it_d = d, it_u = ''/''\<rparr> # after))
   \<and> (truthy x \<and> (resolved_title x = Inl e \<or> resolved_description x = Inl e
          \<or> resolved_url x = Inl e) \<longrightarrow>
        normalizeData (Arr (pre @ x # post)) = Inl TypeError
        \<and> items (settled_B (Response True (Some (Arr (pre @ x # post)))) v st) = [])"
proof -
  have 1: "normalizeData data = Inr recs \<longrightarrow> (\<forall>r\<in>set recs. it_t r \<noteq> [] \<and> it_u r \<noteq> [])"
    using normalizeData_member [of data recs] by blast
  have 2: "\<forall>r\<in>set (items (settled_B resp v st)). it_t r \<noteq> [] \<and> it_u r \<noteq> []"
  proof (cases "\<exists>dat recs'. resp = Response True (Some dat) \<and> normalizeData dat = Inr recs'")
    case True
    then obtain dat recs' where r: "resp = Response True (Some dat)"
      and n: "normalizeData dat = Inr recs'" by blast
    have "items (settled_B resp v st) = recs'"
      by (simp add: r n settled_B_def render_B_items)
    with normalizeData_member [OF n] show ?thesis by blast
  next
    case False
    then have "settled_B resp v st = catch_B v st"
      by (auto simp: settled_B_def split: response.splits option.splits bool.splits sum.splits)
    then show ?thesis by (simp add: items_catch_B)
  qed
  have 3: "resolved_title x = Inr [] \<and> resolved_description x = Inr d \<and> resolved_url x = Inr u \<longrightarrow>
        normalizeData (Arr (pre @ x # post)) = normalizeData (Arr (pre @ post))"
  proof
    assume h: "resolved_title x = Inr [] \<and> resolved_description x = Inr d \<and> resolved_url x = Inr u"
    then have "normalize_loop (x # post) = normalize_loop post"
      by (intro normalize_loop_dropped) simp_all
    then show "normalizeData (Arr (pre @ x # post)) = normalizeData (Arr (pre @ post))"
      by (simp only: normalizeData_Arr normalize_loop_append [of pre])
  qed
  have 4: "truthy x \<and> resolved_title x = Inr t \<and> t \<noteq> [] \<and> resolved_description x = Inr d
        \<and> resolved_url x = Inr []
        \<and> normalizeData (Arr pre) = Inr before \<and> normalizeData (Arr post) = Inr after \<longrightarrow>
        normalizeData (Arr (pre @ x # post))
          = Inr (before @ \<lparr>it_t = t, it_d = d, it_u = ''/''\<rparr> # after)"
  proof
    assume h: "truthy x \<and> resolved_title x = Inr t \<and> t \<noteq> [] \<and> resolved_description x = Inr d
        \<and> resolved_url x = Inr []
        \<and> normalizeData (Arr pre) = Inr before \<and> normalizeData (Arr post) = Inr after"
    then have pq: "normalize_loop pre = Inr before" "normalize_loop post = Inr after"
      by (simp_all add: normalizeData_Arr)
    from h have "normalize_loop (x # post) =
       (case normalize_loop post of
          Inl e \<Rightarrow> Inl e
        | Inr out \<Rightarrow> Inr (\<lparr>it_t = t, it_d = d, it_u = ''/''\<rparr> # out))"
      by (intro normalize_loop_default_url) simp_all
    then have "normalize_loop (x # post) = Inr (\<lparr>it_t = t, it_d = d, it_u = ''/''\<rparr> # after)"
      by (simp add: pq)
    then show "normalizeData (Arr (pre @ x # post))
          = Inr (before @ \<lparr>it_t = t, it_d = d, it_u = ''/''\<rparr> # after)"
      by (simp only: normalizeData_Arr normalize_loop_append [of pre] pq sum.case)
  qed
  have 5: "truthy x \<and> (resolved_title x = Inl e \<or> resolved_description x = Inl e
          \<or> resolved_url x = Inl e) \<longrightarrow>
        normalizeData (Arr (pre @ x # post)) = Inl TypeError
        \<and> items (settled_B (Response True (Some (Arr (pre @ x # post)))) v st) = []"
  proof
    assume h: "truthy x \<and> (resolved_title x = Inl e \<or> resolved_description x = Inl e
          \<or> resolved_url x = Inl e)"
    then have x: "normalize_loop (x # post) = Inl TypeError"
      using normalize_loop_throws [of x e post] by blast
    have T: "\<And>e'. (e' :: error) = TypeError" by (case_tac e') simp
    have n: "normalizeData (Arr (pre @ x # post)) = Inl TypeError"
      by (simp add: normalizeData_Arr normalize_loop_append [of pre] x T
          del: normalize_loop.simps split: sum.splits)
    then have "settled_B (Response True (Some (Arr (pre @ x # post)))) v st = catch_B v st"
      by (simp add: settled_B_def)
    with n show "normalizeData (Arr (pre @ x # post)) = Inl TypeError
        \<and> items (settled_B (Response True (Some (Arr (pre @ x # post)))) v st) = []"
      by (simp add: items_catch_B)
  qed
  from 1 2 3 4 5 show ?thesis by (intro conjI)
qed

theorem normalized_records_counterexample:
  "resolved_url (Obj [(''t'', Str ''X'')]) = Inr []
   \<and> normalizeData (Obj [(''items'', Arr [Obj [(''t'', Str ''X'')]])])
       = Inr [\<lparr>it_t = ''X'', it_d = [], it_u = ''/''\<rparr>]"
  by code_simp

theorem normalized_records_witness:
  "normalizeData (Arr [Obj [(''title'', Str []), (''url'', Str ''/x'')]]) = Inr []
   \<and> normalizeData (Arr [Obj [(''t'', Str ''X'')]])
       = Inr [\<lparr>it_t = ''X'', it_d = [], it_u = ''/''\<rparr>]
   \<and> normalizeData (Arr [Obj [(''t'', Str ''X'')],
        Obj [(''t'', Obj [(''toString'', Num ''1'')]), (''u'', Str ''/p'')]]) = Inl TypeError
   \<and> items (settled_B (Response True (Some (Arr [Obj [(''t'', Str ''X'')],
        Obj [(''t'', Obj [(''toString'', Num ''1'')]), (''u'', Str ''/p'')]]))) [] init_B) = []"
proof -
  have r: "resolved_title (Obj [(''title'', Str []), (''url'', Str ''/x'')]) = Inr []"
    "resolved_description (Obj [(''title'', Str []), (''url'', Str ''/x'')]) = Inr []"
    "resolved_url (Obj [(''title'', Str []), (''url'', Str ''/x'')]) = Inr ''/x''"
    "resolved_title (Obj [(''t'', Str ''X'')]) = Inr ''X''"
    "resolved_description (Obj [(''t'', Str ''X'')]) = Inr []"
    "resolved_url (Obj [(''t'', Str ''X'')]) = Inr []"
    "resolved_title (Obj [(''t'', Obj [(''toString'', Num ''1'')]), (''u'', Str ''/p'')])
       = Inl TypeError"
    by code_simp+
  have e: "normalizeData (Arr []) = Inr []" by code_simp
  have 1: "normalizeData (Arr [Obj [(''title'', Str []), (''url'', Str ''/x'')]]) = Inr []"
    using normalized_records [of "Arr []" "[]" Fetch_rejected "[]" init_B
        "Obj [(''title'', Str []), (''url'', Str ''/x'')]" "[]" "''/x''" "[]" "[]"]
    by (simp add: r e)
  have 2: "normalizeData (Arr [Obj [(''t'', Str ''X'')]])
      = Inr [\<lparr>it_t = ''X'', it_d = [], it_u = ''/''\<rparr>]"
    using normalized_records [of "Arr []" "[]" Fetch_rejected "[]" init_B
        "Obj [(''t'', Str ''X'')]" "[]" "[]" "[]" "[]" "''X''" "[]" "[]"]
    by (simp add: r e)
  have 3: "normalizeData (Arr [Obj [(''t'', Str ''X'')],
        Obj [(''t'', Obj [(''toString'', Num ''1'')]), (''u'', Str ''/p'')]]) = Inl TypeError
      \<and> items (settled_B (Response True (Some (Arr [Obj [(''t'', Str ''X'')],
        Obj [(''t'', Obj [(''toString'', Num ''1'')]), (''u'', Str ''/p'')]]))) [] init_B) = []"
    using normalized_records [of "Arr []" "[]" Fetch_rejected "[]" init_B
        "Obj [(''t'', Obj [(''toString'', Num ''1'')]), (''u'', Str ''/p'')]" "[]" "[]"
        "[Obj [(''t'', Str ''X'')]]" "[]" "[]" "[]" "[]" TypeError]
    by (simp add: r)
  from 1 2 3 show ?thesis by blast
qed

section \<open>A request that fails\<close>

lemma top_A_Nil: "top_A q [] = []"
  by (simp add: top_A_def ranked_A_def array_sort_def)

lemma top_B_Nil: "top_B q [] = []"
  by (simp add: top_B_def ranked_B_def array_sort_def)

lemma render_A_no_items:
  "items st = [] \<Longrightarrow> trim q \<noteq> [] \<Longrightarrow> render_A q st = st\<lparr>box := No_results, display := True\<rparr>"
  by (simp add: render_A_def top_A_Nil openBox_A_def)

lemma render_B_no_items:
  "items st = [] \<Longrightarrow> trim q \<noteq> [] \<Longrightarrow>
     render_B q st = st\<lparr>box := No_results, display := True, opened := True\<rparr>"
  by (simp add: render_B_def top_B_Nil openBox_B_def)

lemma step_A_loaded:
  "loaded st \<Longrightarrow> loaded (step_A e st) \<and> items (step_A e st) = items st"
  by (cases e)
    (auto simp: ensureLoaded_A_def render_A_loader render_A_items keydown_A_def closeBox_A_def
      setActive_def go_A_def Let_def split: option.splits)

lemma step_B_loaded:
  "loaded st \<Longrightarrow> loaded (step_B e st) \<and> items (step_B e st) = items st"
  by (cases e)
    (auto simp: ensureLoaded_B_def render_B_loader render_B_items keydown_B_def closeBox_B_def
      setActive_def go_B_def Let_def split: option.splits sum.splits)

lemma search_ready: "ready (search lc q st) = ready st \<and> indexItems (search lc q st) = indexItems st"
  by (simp add: search_def closeBox_C_def openBox_C_def renderEmpty_def renderList_def Let_def)

lemma step_C_ready:
  "ready (step_C lc e st) = ready st \<and> indexItems (step_C lc e st) = indexItems st"
  by (cases e)
    (auto simp: search_ready keydown_C_def closeBox_C_def setActive_C_def goActive_def Let_def
      split: option.splits)

lemma run_A_loaded: "loaded st \<Longrightarrow> loaded (run_A es st) \<and> items (run_A es st) = items st"
  unfolding run_A_def
proof (induction es arbitrary: st)
  case Nil
  then show ?case by simp
next
  case (Cons e es)
  then show ?case using step_A_loaded [of st e] by simp
qed

lemma run_B_loaded: "loaded st \<Longrightarrow> loaded (run_B es st) \<and> items (run_B es st) = items st"
  unfolding run_B_def
proof (induction es arbitrary: st)
  case Nil
  then show ?case by simp
next
  case (Cons e es)
  then show ?case using step_B_loaded [of st e] by simp
qed

lemma run_C_ready:
  "ready (run_C lc es st) = ready st \<and> indexItems (run_C lc es st) = indexItems st"
  unfolding run_C_def
proof (induction es arbitrary: st)
  case Nil
  then show ?case by simp
next
  case (Cons e es)
  then show ?case using step_C_ready [of lc e st] by simp
qed

lemma settled_A_no_body:
  "no_body resp \<Longrightarrow> settled_A resp v st = render_A v (st\<lparr>items := []\<rparr>)"
  by (auto simp: no_body_def settled_A_def split: response.splits option.splits)

lemma settled_B_failed: "failed resp \<Longrightarrow> settled_B resp v st = catch_B v st"
  by (auto simp: failed_def settled_B_def split: response.splits option.splits bool.splits)

lemma settled_C_no_body: "no_body resp \<Longrightarrow> settled_C resp st = st\<lparr>ready := False\<rparr>"
  by (auto simp: no_body_def settled_C_def split: response.splits option.splits)

lemma failed_with_body:
  "failed resp \<and> \<not> no_body resp \<longleftrightarrow> (\<exists>dat. resp = Response False (Some dat))"
  by (auto simp: failed_def no_body_def split: response.splits)

text \<open>
  Claim C2, as amended. The index is unavailable when the request fails, when the status is
  not a success, or when the body does not parse; any events follow. The states \<open>a1\<close>,
  \<open>b1\<close>, \<open>c1\<close> are the ones the request settles in: in variant A \<open>loaded\<close> is set since
  the request was made, in variant C no records have been stored. Variant B is afterwards in
  the loaded state with an empty list of records for good, on every such failure, and an
  input with a non-empty query opens the panel on the message that nothing was found, with
  no row and no navigation. Variant A does the same when the request fails or the body does
  not parse. Variant C is then left not ready, with the empty list, and an input with a
  non-empty query opens the panel on the loading message, again with no row. Variants A and
  C do not look at the status: the one failure that is left, a status that is not a success
  with a body that parses, they take for a success and store its records. No variant has an
  error state to reach.
\<close>

theorem failed_request_is_absorbed:
  assumes "no_body ra" and "failed rb" and "no_body rc" and "trim q \<noteq> []"
    and "loaded a1" and "indexItems c1 = []"
    and "a = run_A es (settled_A ra v a1)"
    and "b = run_B es (settled_B rb v b1)"
    and "c = run_C lc es (settled_C rc c1)"
  shows "loaded a \<and> items a = []
    \<and> step_A (Input q) a = a\<lparr>box := No_results, display := True\<rparr>
    \<and> loaded b \<and> items b = []
    \<and> step_B (Input q) b = b\<lparr>box := No_results, display := True, opened := True\<rparr>
    \<and> \<not> ready c \<and> indexItems c = []
    \<and> step_C lc (Input q) c = c\<lparr>box_C := Loading, open_class := True\<rparr>
    \<and> (failed r \<and> \<not> no_body r \<longleftrightarrow> (\<exists>dat. r = Response False (Some dat)))
    \<and> settled_A (Response False (Some doc)) v a1 = render_A v (a1\<lparr>items := doc_items doc\<rparr>)
    \<and> settled_C (Response False (Some doc)) c1
        = c1\<lparr>indexItems := doc_items doc, ready := True\<rparr>"
proof -
  have "loaded (settled_A ra v a1) \<and> items (settled_A ra v a1) = []"
    using assms(5) by (simp add: settled_A_no_body [OF assms(1)] render_A_loader render_A_items)
  then have A: "loaded a \<and> items a = []"
    using run_A_loaded [of "settled_A ra v a1" es] assms(7) by simp
  have "loaded (settled_B rb v b1) \<and> items (settled_B rb v b1) = []"
    by (simp add: settled_B_failed [OF assms(2)] catch_B_def render_B_loader render_B_items)
  then have B: "loaded b \<and> items b = []"
    using run_B_loaded [of "settled_B rb v b1" es] assms(8) by simp
  have C: "\<not> ready c \<and> indexItems c = []"
    using run_C_ready [of lc es "settled_C rc c1"] assms(6,9)
    by (simp add: settled_C_no_body [OF assms(3)])
  have A': "step_A (Input q) a = a\<lparr>box := No_results, display := True\<rparr>"
    using A assms(4) by (simp add: ensureLoaded_A_def render_A_no_items)
  have B': "step_B (Input q) b = b\<lparr>box := No_results, display := True, opened := True\<rparr>"
    using B assms(4) by (simp add: ensureLoaded_B_def render_B_no_items)
  have C': "step_C lc (Input q) c = c\<lparr>box_C := Loading, open_class := True\<rparr>"
    using C norm_nonempty [OF assms(4)] by (simp add: search_def openBox_C_def)
  have R: "failed r \<and> \<not> no_body r \<longleftrightarrow> (\<exists>dat. r = Response False (Some dat))"
    by (rule failed_with_body)
  have S: "settled_A (Response False (Some doc)) v a1 = render_A v (a1\<lparr>items := doc_items doc\<rparr>)"
    "settled_C (Response False (Some doc)) c1 = c1\<lparr>indexItems := doc_items doc, ready := True\<rparr>"
    by (simp_all add: settled_A_def settled_C_def)
  from A A' B B' C C' R S show ?thesis by (intro conjI) simp_all
qed

theorem failed_request_is_absorbed_counterexample:
  "\<not> ready (settled_C Fetch_rejected init_C)
   \<and> box_C (search lex_compare ''anything'' (settled_C Fetch_rejected init_C)) = Loading"
  by code_simp

theorem failed_request_is_absorbed_witness:
  "loaded (run_A [Keydown Escape ''a'', Focus ''a'']
        (settled_A Fetch_rejected ''a'' (ensureLoaded_A ''a'' init_A)))
   \<and> box (step_A (Input ''anything'') (run_A [Keydown Escape ''a'', Focus ''a'']
        (settled_A Fetch_rejected ''a'' (ensureLoaded_A ''a'' init_A)))) = No_results
   \<and> box (step_B (Input ''anything'') (run_B [Keydown Escape ''a'', Focus ''a'']
        (settled_B (Response False (Some (Arr [Obj [(''t'', Str ''X''), (''u'', Str ''/x'')]])))
          ''a'' (ensureLoaded_B ''a'' init_B)))) = No_results
   \<and> box_C (step_C lex_compare (Input ''anything'')
        (run_C lex_compare [Keydown Escape ''a'', Focus ''a'']
          (settled_C (Response True None) init_C))) = Loading"
proof -
  have f: "no_body (Fetch_rejected :: doc response)"
    "failed (Response False (Some (Arr [Obj [(''t'', Str ''X''), (''u'', Str ''/x'')]])))"
    "no_body (Response True None :: doc response)"
    by (simp_all add: failed_def no_body_def)
  have t: "trim ''anything'' \<noteq> []" by code_simp
  have i: "loaded (ensureLoaded_A ''a'' init_A)" "indexItems init_C = []"
    by (simp_all add: init_A_def init_C_def ensureLoaded_A_def)
  note th = failed_request_is_absorbed [where es = "[Keydown Escape ''a'', Focus ''a'']"
      and v = "''a''" and ?b1.0 = "ensureLoaded_B ''a'' init_B" and lc = lex_compare,
      OF f(1) f(2) f(3) t i(1) i(2) refl refl refl]
  from th have 1: "loaded (run_A [Keydown Escape ''a'', Focus ''a'']
        (settled_A Fetch_rejected ''a'' (ensureLoaded_A ''a'' init_A)))"
    by blast
  from th have "step_A (Input ''anything'') (run_A [Keydown Escape ''a'', Focus ''a'']
        (settled_A Fetch_rejected ''a'' (ensureLoaded_A ''a'' init_A)))
      = (run_A [Keydown Escape ''a'', Focus ''a'']
        (settled_A Fetch_rejected ''a'' (ensureLoaded_A ''a'' init_A)))
          \<lparr>box := No_results, display := True\<rparr>"
    by blast
  then have 2: "box (step_A (Input ''anything'') (run_A [Keydown Escape ''a'', Focus ''a'']
        (settled_A Fetch_rejected ''a'' (ensureLoaded_A ''a'' init_A)))) = No_results"
    by simp
  from th have "step_B (Input ''anything'') (run_B [Keydown Escape ''a'', Focus ''a'']
        (settled_B (Response False (Some (Arr [Obj [(''t'', Str ''X''), (''u'', Str ''/x'')]])))
          ''a'' (ensureLoaded_B ''a'' init_B)))
      = (run_B [Keydown Escape ''a'', Focus ''a'']
        (settled_B (Response False (Some (Arr [Obj [(''t'', Str ''X''), (''u'', Str ''/x'')]])))
          ''a'' (ensureLoaded_B ''a'' init_B)))
          \<lparr>box := No_results, display := True, opened := True\<rparr>"
    by blast
  then have 3: "box (step_B (Input ''anything'') (run_B [Keydown Escape ''a'', Focus ''a'']
        (settled_B (Response False (Some (Arr [Obj [(''t'', Str ''X''), (''u'', Str ''/x'')]])))
          ''a'' (ensureLoaded_B ''a'' init_B)))) = No_results"
    by simp
  from th have "step_C lex_compare (Input ''anything'')
        (run_C lex_compare [Keydown Escape ''a'', Focus ''a'']
          (settled_C (Response True None) init_C))
      = (run_C lex_compare [Keydown Escape ''a'', Focus ''a'']
          (settled_C (Response True None) init_C))\<lparr>box_C := Loading, open_class := True\<rparr>"
    by blast
  then have 4: "box_C (step_C lex_compare (Input ''anything'')
        (run_C lex_compare [Keydown Escape ''a'', Focus ''a'']
          (settled_C (Response True None) init_C))) = Loading"
    by simp
  from 1 2 3 4 show ?thesis by blast
qed

section \<open>Sorting with a comparator\<close>

lemma mset_insert_sorted: "mset (insert_sorted cmp x ys) = add_mset x (mset ys)"
  by (induction ys) auto

lemma mset_array_sort: "mset (array_sort cmp xs) = mset xs"
  unfolding array_sort_def by (induction xs) (auto simp: mset_insert_sorted)

lemma set_insert_sorted: "set (insert_sorted cmp x ys) = insert x (set ys)"
  using mset_insert_sorted [of cmp x ys] by (metis set_mset_add_mset_insert set_mset_mset)

lemma length_array_sort: "length (array_sort cmp xs) = length xs"
  using mset_array_sort [of cmp xs] by (metis size_mset)

lemma sorted_insert_sorted:
  assumes "consistent cmp" and "sorted_wrt (\<lambda>a b. cmp a b \<le> 0) ys"
  shows "sorted_wrt (\<lambda>a b. cmp a b \<le> 0) (insert_sorted cmp x ys)"
  using assms(2)
proof (induction ys)
  case Nil
  then show ?case by simp
next
  case (Cons y ys)
  have anti: "\<And>a b. cmp a b < 0 \<longleftrightarrow> 0 < cmp b a"
    and trans: "\<And>a b c. cmp a b \<le> 0 \<Longrightarrow> cmp b c \<le> 0 \<Longrightarrow> cmp a c \<le> 0"
    using assms(1) unfolding consistent_def by blast+
  show ?case
  proof (cases "cmp x y \<le> 0")
    case True
    then have "\<forall>z\<in>set ys. cmp x z \<le> 0" using Cons.prems trans by auto
    with True Cons.prems show ?thesis by simp
  next
    case False
    then have "cmp y x \<le> 0" using anti [of y x] by simp
    with False Cons show ?thesis by (auto simp: set_insert_sorted)
  qed
qed

lemma sorted_array_sort:
  "consistent cmp \<Longrightarrow> sorted_wrt (\<lambda>a b. cmp a b \<le> 0) (array_sort cmp xs)"
  unfolding array_sort_def by (induction xs) (auto simp: sorted_insert_sorted)

lemma insert_sorted_cmp_AB:
  "insert_sorted cmp_AB x ys = insort_key (\<lambda>c. - cand_s c) x ys"
  by (induction ys) (auto simp: cmp_AB_def)

lemma array_sort_cmp_AB: "array_sort cmp_AB xs = sort_key (\<lambda>c. - cand_s c) xs"
  unfolding array_sort_def sort_key_def by (induction xs) (auto simp: insert_sorted_cmp_AB)

lemma consistent_cmp_AB: "consistent cmp_AB"
  by (auto simp: consistent_def cmp_AB_def)

lemma filter_insert_sorted_AB:
  "filter (\<lambda>c. cand_s c = k) (insert_sorted cmp_AB x ys)
     = (if cand_s x = k then x # filter (\<lambda>c. cand_s c = k) ys
        else filter (\<lambda>c. cand_s c = k) ys)"
  by (induction ys) (auto simp: cmp_AB_def)

lemma stable_array_sort_AB:
  "filter (\<lambda>c. cand_s c = k) (array_sort cmp_AB xs) = filter (\<lambda>c. cand_s c = k) xs"
  unfolding array_sort_def by (induction xs) (auto simp: filter_insert_sorted_AB)

lemma lex_compare_anti: "lex_compare a b < 0 \<longleftrightarrow> 0 < lex_compare b a"
  by (induction a b rule: lex_compare.induct) auto

lemma cmp_C_le_iff:
  "cmp_C lc a b \<le> 0 \<longleftrightarrow>
     sc_s b < sc_s a \<or> (sc_s a = sc_s b \<and> lc (sc_t a) (sc_t b) \<le> 0)"
  by (auto simp: cmp_C_def)

lemma consistent_cmp_C:
  assumes "consistent lc"
  shows "consistent (cmp_C lc)"
proof -
  have anti: "\<And>s t. lc s t < 0 \<longleftrightarrow> 0 < lc t s"
    and trans: "\<And>s t u. lc s t \<le> 0 \<Longrightarrow> lc t u \<le> 0 \<Longrightarrow> lc s u \<le> 0"
    using assms unfolding consistent_def by blast+
  have 1: "cmp_C lc a b < 0 \<longleftrightarrow> 0 < cmp_C lc b a" for a b
    using anti [of "sc_t a" "sc_t b"] by (auto simp: cmp_C_def)
  have 2: "cmp_C lc a c \<le> 0" if "cmp_C lc a b \<le> 0" and "cmp_C lc b c \<le> 0" for a b c
    using that trans [of "sc_t a" "sc_t b" "sc_t c"] unfolding cmp_C_le_iff by linarith
  from 1 2 show ?thesis unfolding consistent_def by blast
qed

lemma lex_compare_trans:
  "lex_compare a b \<le> 0 \<Longrightarrow> lex_compare b c \<le> 0 \<Longrightarrow> lex_compare a c \<le> 0"
proof (induction a b arbitrary: c rule: lex_compare.induct)
  case 1
  then show ?case by (cases c) simp_all
next
  case (2 y ys)
  then show ?case by (cases c) simp_all
next
  case (3 x xs)
  then show ?case by simp
next
  case (4 x xs y ys)
  show ?case
  proof (cases c)
    case Nil
    with "4.prems" show ?thesis by simp
  next
    case (Cons z zs)
    show ?thesis
    proof (cases "(of_char x :: nat) < of_char y")
      case True
      with "4.prems" Cons show ?thesis by (auto split: if_splits)
    next
      case False
      with "4.prems" have eq: "(of_char x :: nat) = of_char y" and le: "lex_compare xs ys \<le> 0"
        by (simp_all split: if_splits)
      show ?thesis
      proof (cases "(of_char y :: nat) < of_char z")
        case True
        with eq Cons show ?thesis by simp
      next
        case False2: False
        with "4.prems" Cons have eq2: "(of_char y :: nat) = of_char z"
          and le2: "lex_compare ys zs \<le> 0"
          by (simp_all split: if_splits)
        have "lex_compare xs zs \<le> 0"
          using "4.IH" [of zs] False eq le le2 by simp
        with eq eq2 Cons show ?thesis by simp
      qed
    qed
  qed
qed

lemma consistent_lex_compare: "consistent lex_compare"
  unfolding consistent_def using lex_compare_anti lex_compare_trans by blast

section \<open>The ranked result\<close>

lemma sorted_wrt_take: "sorted_wrt P xs \<Longrightarrow> sorted_wrt P (take n xs)"
  by (metis append_take_drop_id sorted_wrt_append)

lemma sorted_wrt_take_drop:
  "sorted_wrt P xs \<Longrightarrow> a \<in> set (take n xs) \<Longrightarrow> b \<in> set (drop n xs) \<Longrightarrow> P a b"
  by (metis append_take_drop_id sorted_wrt_append)

lemma prefix_filter_take: "prefix (filter P (take n xs)) (filter P xs)"
  by (metis append_take_drop_id filter_append prefixI)

lemma sorted_cmp_AB:
  "sorted_wrt (\<lambda>a b. cand_s b \<le> cand_s a) (array_sort cmp_AB xs)"
  using sorted_array_sort [OF consistent_cmp_AB, of xs] by (simp add: cmp_AB_def)

lemma sorted_cmp_C:
  "consistent lc \<Longrightarrow>
     sorted_wrt (\<lambda>a b. sc_s b < sc_s a \<or> (sc_s a = sc_s b \<and> lc (sc_t a) (sc_t b) \<le> 0))
       (array_sort (cmp_C lc) xs)"
  using sorted_array_sort [OF consistent_cmp_C, of lc xs] by (simp add: cmp_C_le_iff)

text \<open>
  Claim C1, as amended. In every variant the ranked result is in descending order of score.
  In variant C two candidates of equal score are in ascending order of title, as
  \<^verbatim>\<open>localeCompare\<close> orders titles (a consistent comparator). In variants A and B the
  comparator looks at the score only, and the candidates of one score come in the order of
  the index.
\<close>

theorem ranked_order:
  "sorted_wrt (\<lambda>a b. cand_s b \<le> cand_s a) (top_A q its)
   \<and> sorted_wrt (\<lambda>a b. cand_s b \<le> cand_s a) (top_B q its)
   \<and> (consistent lc \<longrightarrow>
        sorted_wrt (\<lambda>a b. sc_s b < sc_s a \<or> (sc_s a = sc_s b \<and> lc (sc_t a) (sc_t b) \<le> 0))
          (top_C lc q its))
   \<and> prefix (filter (\<lambda>c. cand_s c = k) (top_A q its))
        (filter (\<lambda>c. cand_s c = k) (collect_A q its))
   \<and> prefix (filter (\<lambda>c. cand_s c = k) (top_B q its))
        (filter (\<lambda>c. cand_s c = k) (collect_B q its))"
proof -
  have A: "sorted_wrt (\<lambda>a b. cand_s b \<le> cand_s a) (top_A q its)"
    unfolding top_A_def ranked_A_def by (intro sorted_wrt_take sorted_cmp_AB)
  have B: "sorted_wrt (\<lambda>a b. cand_s b \<le> cand_s a) (top_B q its)"
    unfolding top_B_def ranked_B_def by (intro sorted_wrt_take sorted_cmp_AB)
  have C: "consistent lc \<longrightarrow>
        sorted_wrt (\<lambda>a b. sc_s b < sc_s a \<or> (sc_s a = sc_s b \<and> lc (sc_t a) (sc_t b) \<le> 0))
          (top_C lc q its)"
    unfolding top_C_def ranked_C_def by (intro impI sorted_wrt_take sorted_cmp_C)
  have A': "prefix (filter (\<lambda>c. cand_s c = k) (top_A q its))
        (filter (\<lambda>c. cand_s c = k) (collect_A q its))"
    using prefix_filter_take [of "\<lambda>c. cand_s c = k" 10 "ranked_A q its"]
    by (simp add: top_A_def ranked_A_def stable_array_sort_AB)
  have B': "prefix (filter (\<lambda>c. cand_s c = k) (top_B q its))
        (filter (\<lambda>c. cand_s c = k) (collect_B q its))"
    using prefix_filter_take [of "\<lambda>c. cand_s c = k" 10 "ranked_B q its"]
    by (simp add: top_B_def ranked_B_def stable_array_sort_AB)
  from A B C A' B' show ?thesis by blast
qed

theorem ranked_order_counterexample:
  "map cand_s
       (top_A ''apple'' [\<lparr>it_t = ''b apple'', it_d = [], it_u = ''/b''\<rparr>,
                         \<lparr>it_t = ''a apple'', it_d = [], it_u = ''/a''\<rparr>])
     = [600, 600]
   \<and> map (it_t \<circ> cand_it)
       (top_A ''apple'' [\<lparr>it_t = ''b apple'', it_d = [], it_u = ''/b''\<rparr>,
                         \<lparr>it_t = ''a apple'', it_d = [], it_u = ''/a''\<rparr>])
     = [''b apple'', ''a apple'']
   \<and> lex_compare ''a apple'' ''b apple'' < 0"
  by code_simp

theorem ranked_order_witness:
  "top_C lex_compare ''apple'' [\<lparr>it_t = ''b apple'', it_d = [], it_u = ''/b''\<rparr>,
                                \<lparr>it_t = ''a apple'', it_d = [], it_u = ''/a''\<rparr>,
                                \<lparr>it_t = ''Apple'', it_d = [], it_u = ''/c''\<rparr>]
     = [\<lparr>sc_s = 1000, sc_t = ''Apple'', sc_u = ''/c'', sc_d = []\<rparr>,
        \<lparr>sc_s = 600, sc_t = ''a apple'', sc_u = ''/a'', sc_d = []\<rparr>,
        \<lparr>sc_s = 600, sc_t = ''b apple'', sc_u = ''/b'', sc_d = []\<rparr>]
   \<and> lex_compare ''a apple'' ''b apple'' \<le> 0"
proof -
  have e: "top_C lex_compare ''apple'' [\<lparr>it_t = ''b apple'', it_d = [], it_u = ''/b''\<rparr>,
                                     \<lparr>it_t = ''a apple'', it_d = [], it_u = ''/a''\<rparr>,
                                     \<lparr>it_t = ''Apple'', it_d = [], it_u = ''/c''\<rparr>]
      = [\<lparr>sc_s = 1000, sc_t = ''Apple'', sc_u = ''/c'', sc_d = []\<rparr>,
         \<lparr>sc_s = 600, sc_t = ''a apple'', sc_u = ''/a'', sc_d = []\<rparr>,
         \<lparr>sc_s = 600, sc_t = ''b apple'', sc_u = ''/b'', sc_d = []\<rparr>]"
    by code_simp
  note th = ranked_order [of "''apple''" "[\<lparr>it_t = ''b apple'', it_d = [], it_u = ''/b''\<rparr>,
                                     \<lparr>it_t = ''a apple'', it_d = [], it_u = ''/a''\<rparr>,
                                     \<lparr>it_t = ''Apple'', it_d = [], it_u = ''/c''\<rparr>]"
        lex_compare 600]
  from th consistent_lex_compare
  have "sorted_wrt (\<lambda>a b. sc_s b < sc_s a \<or> (sc_s a = sc_s b \<and> lex_compare (sc_t a) (sc_t b) \<le> 0))
      (top_C lex_compare ''apple'' [\<lparr>it_t = ''b apple'', it_d = [], it_u = ''/b''\<rparr>,
                                     \<lparr>it_t = ''a apple'', it_d = [], it_u = ''/a''\<rparr>,
                                     \<lparr>it_t = ''Apple'', it_d = [], it_u = ''/c''\<rparr>])"
    by blast
  then have "lex_compare ''a apple'' ''b apple'' \<le> 0"
    unfolding e by simp
  with e show ?thesis by blast
qed

lemma mset_take_drop: "mset (take n xs) + mset (drop n xs) = mset xs"
  by (metis append_take_drop_id mset_append)

text \<open>
  Claim C6, as amended. The ranked result has at most ten candidates in variants A and B and
  at most eight in variant C, and exactly that many when there are more candidates. It and
  the candidates left out are together the candidates. In variants A and B no candidate left
  out has a higher score than one returned, and the candidates of one score are returned in
  the order of the index, so among equal scores the earlier records of the index are the
  ones kept. In variant C every candidate returned comes before every one left out in the
  order of descending score and then ascending title, as \<^verbatim>\<open>localeCompare\<close> orders titles.
\<close>

theorem top_candidates:
  "length (top_A q its) = min 10 (length (collect_A q its))
   \<and> length (top_B q its) = min 10 (length (collect_B q its))
   \<and> length (top_C lc q its) = min 8 (length (collect_C q its))
   \<and> mset (top_A q its) + mset (drop 10 (ranked_A q its)) = mset (collect_A q its)
   \<and> mset (top_B q its) + mset (drop 10 (ranked_B q its)) = mset (collect_B q its)
   \<and> mset (top_C lc q its) + mset (drop 8 (ranked_C lc q its)) = mset (collect_C q its)
   \<and> (\<forall>a\<in>set (top_A q its). \<forall>b\<in>set (drop 10 (ranked_A q its)). cand_s b \<le> cand_s a)
   \<and> (\<forall>a\<in>set (top_B q its). \<forall>b\<in>set (drop 10 (ranked_B q its)). cand_s b \<le> cand_s a)
   \<and> prefix (filter (\<lambda>c. cand_s c = k) (top_A q its))
        (filter (\<lambda>c. cand_s c = k) (collect_A q its))
   \<and> prefix (filter (\<lambda>c. cand_s c = k) (top_B q its))
        (filter (\<lambda>c. cand_s c = k) (collect_B q its))
   \<and> (consistent lc \<longrightarrow>
        (\<forall>a\<in>set (top_C lc q its). \<forall>b\<in>set (drop 8 (ranked_C lc q its)).
           sc_s b < sc_s a \<or> (sc_s a = sc_s b \<and> lc (sc_t a) (sc_t b) \<le> 0)))"
proof -
  have l: "length (top_A q its) = min 10 (length (collect_A q its))"
    "length (top_B q its) = min 10 (length (collect_B q its))"
    "length (top_C lc q its) = min 8 (length (collect_C q its))"
    by (simp_all add: top_A_def top_B_def top_C_def ranked_A_def ranked_B_def ranked_C_def
        length_array_sort min.commute)
  have m: "mset (top_A q its) + mset (drop 10 (ranked_A q its)) = mset (collect_A q its)"
    "mset (top_B q its) + mset (drop 10 (ranked_B q its)) = mset (collect_B q its)"
    "mset (top_C lc q its) + mset (drop 8 (ranked_C lc q its)) = mset (collect_C q its)"
    unfolding top_A_def top_B_def top_C_def mset_take_drop
    by (simp_all add: ranked_A_def ranked_B_def ranked_C_def mset_array_sort)
  have A: "\<forall>a\<in>set (top_A q its). \<forall>b\<in>set (drop 10 (ranked_A q its)). cand_s b \<le> cand_s a"
    unfolding top_A_def ranked_A_def
    using sorted_wrt_take_drop [OF sorted_cmp_AB] by blast
  have B: "\<forall>a\<in>set (top_B q its). \<forall>b\<in>set (drop 10 (ranked_B q its)). cand_s b \<le> cand_s a"
    unfolding top_B_def ranked_B_def
    using sorted_wrt_take_drop [OF sorted_cmp_AB] by blast
  have A': "prefix (filter (\<lambda>c. cand_s c = k) (top_A q its))
        (filter (\<lambda>c. cand_s c = k) (collect_A q its))"
    using prefix_filter_take [of "\<lambda>c. cand_s c = k" 10 "ranked_A q its"]
    by (simp add: top_A_def ranked_A_def stable_array_sort_AB)
  have B': "prefix (filter (\<lambda>c. cand_s c = k) (top_B q its))
        (filter (\<lambda>c. cand_s c = k) (collect_B q its))"
    using prefix_filter_take [of "\<lambda>c. cand_s c = k" 10 "ranked_B q its"]
    by (simp add: top_B_def ranked_B_def stable_array_sort_AB)
  have C: "consistent lc \<longrightarrow>
        (\<forall>a\<in>set (top_C lc q its). \<forall>b\<in>set (drop 8 (ranked_C lc q its)).
           sc_s b < sc_s a \<or> (sc_s a = sc_s b \<and> lc (sc_t a) (sc_t b) \<le> 0))"
  proof
    assume c: "consistent lc"
    show "\<forall>a\<in>set (top_C lc q its). \<forall>b\<in>set (drop 8 (ranked_C lc q its)).
           sc_s b < sc_s a \<or> (sc_s a = sc_s b \<and> lc (sc_t a) (sc_t b) \<le> 0)"
      unfolding top_C_def ranked_C_def
      using sorted_wrt_take_drop [OF sorted_cmp_C [OF c]] by blast
  qed
  from l m A B A' B' C show ?thesis by blast
qed

theorem top_candidates_counterexample:
  "map (it_t \<circ> cand_it) (top_A ''x''
     [\<lparr>it_t = ''xb'', it_d = [], it_u = ''/xb''\<rparr>,
      \<lparr>it_t = ''xc'', it_d = [], it_u = ''/xc''\<rparr>,
      \<lparr>it_t = ''xd'', it_d = [], it_u = ''/xd''\<rparr>,
      \<lparr>it_t = ''xe'', it_d = [], it_u = ''/xe''\<rparr>,
      \<lparr>it_t = ''xf'', it_d = [], it_u = ''/xf''\<rparr>,
      \<lparr>it_t = ''xg'', it_d = [], it_u = ''/xg''\<rparr>,
      \<lparr>it_t = ''xh'', it_d = [], it_u = ''/xh''\<rparr>,
      \<lparr>it_t = ''xi'', it_d = [], it_u = ''/xi''\<rparr>,
      \<lparr>it_t = ''xj'', it_d = [], it_u = ''/xj''\<rparr>,
      \<lparr>it_t = ''xk'', it_d = [], it_u = ''/xk''\<rparr>,
      \<lparr>it_t = ''xa'', it_d = [], it_u = ''/xa''\<rparr>])
     = [''xb'', ''xc'', ''xd'', ''xe'', ''xf'', ''xg'', ''xh'', ''xi'', ''xj'', ''xk'']
   \<and> map (it_t \<circ> cand_it) (drop 10 (ranked_A ''x''
     [\<lparr>it_t = ''xb'', it_d = [], it_u = ''/xb''\<rparr>,
      \<lparr>it_t = ''xc'', it_d = [], it_u = ''/xc''\<rparr>,
      \<lparr>it_t = ''xd'', it_d = [], it_u = ''/xd''\<rparr>,
      \<lparr>it_t = ''xe'', it_d = [], it_u = ''/xe''\<rparr>,
      \<lparr>it_t = ''xf'', it_d = [], it_u = ''/xf''\<rparr>,
      \<lparr>it_t = ''xg'', it_d = [], it_u = ''/xg''\<rparr>,
      \<lparr>it_t = ''xh'', it_d = [], it_u = ''/xh''\<rparr>,
      \<lparr>it_t = ''xi'', it_d = [], it_u = ''/xi''\<rparr>,
      \<lparr>it_t = ''xj'', it_d = [], it_u = ''/xj''\<rparr>,
      \<lparr>it_t = ''xk'', it_d = [], it_u = ''/xk''\<rparr>,
      \<lparr>it_t = ''xa'', it_d = [], it_u = ''/xa''\<rparr>]))
     = [''xa'']
   \<and> map cand_s (ranked_A ''x''
     [\<lparr>it_t = ''xb'', it_d = [], it_u = ''/xb''\<rparr>,
      \<lparr>it_t = ''xc'', it_d = [], it_u = ''/xc''\<rparr>,
      \<lparr>it_t = ''xd'', it_d = [], it_u = ''/xd''\<rparr>,
      \<lparr>it_t = ''xe'', it_d = [], it_u = ''/xe''\<rparr>,
      \<lparr>it_t = ''xf'', it_d = [], it_u = ''/xf''\<rparr>,
      \<lparr>it_t = ''xg'', it_d = [], it_u = ''/xg''\<rparr>,
      \<lparr>it_t = ''xh'', it_d = [], it_u = ''/xh''\<rparr>,
      \<lparr>it_t = ''xi'', it_d = [], it_u = ''/xi''\<rparr>,
      \<lparr>it_t = ''xj'', it_d = [], it_u = ''/xj''\<rparr>,
      \<lparr>it_t = ''xk'', it_d = [], it_u = ''/xk''\<rparr>,
      \<lparr>it_t = ''xa'', it_d = [], it_u = ''/xa''\<rparr>])
     = [800, 800, 800, 800, 800, 800, 800, 800, 800, 800, 800]
   \<and> lex_compare ''xa'' ''xb'' < 0"
  by code_simp

theorem top_candidates_witness:
  "length (top_A ''x''
     [\<lparr>it_t = ''xb'', it_d = [], it_u = ''/xb''\<rparr>,
      \<lparr>it_t = ''xc'', it_d = [], it_u = ''/xc''\<rparr>,
      \<lparr>it_t = ''xd'', it_d = [], it_u = ''/xd''\<rparr>,
      \<lparr>it_t = ''xe'', it_d = [], it_u = ''/xe''\<rparr>,
      \<lparr>it_t = ''xf'', it_d = [], it_u = ''/xf''\<rparr>,
      \<lparr>it_t = ''xg'', it_d = [], it_u = ''/xg''\<rparr>,
      \<lparr>it_t = ''xh'', it_d = [], it_u = ''/xh''\<rparr>,
      \<lparr>it_t = ''xi'', it_d = [], it_u = ''/xi''\<rparr>,
      \<lparr>it_t = ''xj'', it_d = [], it_u = ''/xj''\<rparr>,
      \<lparr>it_t = ''xk'', it_d = [], it_u = ''/xk''\<rparr>,
      \<lparr>it_t = ''xa'', it_d = [], it_u = ''/xa''\<rparr>]) = 10
   \<and> map sc_t (top_C lex_compare ''x''
     [\<lparr>it_t = ''xb'', it_d = [], it_u = ''/xb''\<rparr>,
      \<lparr>it_t = ''xc'', it_d = [], it_u = ''/xc''\<rparr>,
      \<lparr>it_t = ''xd'', it_d = [], it_u = ''/xd''\<rparr>,
      \<lparr>it_t = ''xe'', it_d = [], it_u = ''/xe''\<rparr>,
      \<lparr>it_t = ''xf'', it_d = [], it_u = ''/xf''\<rparr>,
      \<lparr>it_t = ''xg'', it_d = [], it_u = ''/xg''\<rparr>,
      \<lparr>it_t = ''xh'', it_d = [], it_u = ''/xh''\<rparr>,
      \<lparr>it_t = ''xi'', it_d = [], it_u = ''/xi''\<rparr>,
      \<lparr>it_t = ''xj'', it_d = [], it_u = ''/xj''\<rparr>,
      \<lparr>it_t = ''xk'', it_d = [], it_u = ''/xk''\<rparr>,
      \<lparr>it_t = ''xa'', it_d = [], it_u = ''/xa''\<rparr>])
     = [''xa'', ''xb'', ''xc'', ''xd'', ''xe'', ''xf'', ''xg'', ''xh'']
   \<and> map sc_t (drop 8 (ranked_C lex_compare ''x''
     [\<lparr>it_t = ''xb'', it_d = [], it_u = ''/xb''\<rparr>,
      \<lparr>it_t = ''xc'', it_d = [], it_u = ''/xc''\<rparr>,
      \<lparr>it_t = ''xd'', it_d = [], it_u = ''/xd''\<rparr>,
      \<lparr>it_t = ''xe'', it_d = [], it_u = ''/xe''\<rparr>,
      \<lparr>it_t = ''xf'', it_d = [], it_u = ''/xf''\<rparr>,
      \<lparr>it_t = ''xg'', it_d = [], it_u = ''/xg''\<rparr>,
      \<lparr>it_t = ''xh'', it_d = [], it_u = ''/xh''\<rparr>,
      \<lparr>it_t = ''xi'', it_d = [], it_u = ''/xi''\<rparr>,
      \<lparr>it_t = ''xj'', it_d = [], it_u = ''/xj''\<rparr>,
      \<lparr>it_t = ''xk'', it_d = [], it_u = ''/xk''\<rparr>,
      \<lparr>it_t = ''xa'', it_d = [], it_u = ''/xa''\<rparr>]))
     = [''xi'', ''xj'', ''xk'']
   \<and> lex_compare ''xh'' ''xi'' \<le> 0"
proof -
  have a: "length (collect_A ''x''
     [\<lparr>it_t = ''xb'', it_d = [], it_u = ''/xb''\<rparr>,
      \<lparr>it_t = ''xc'', it_d = [], it_u = ''/xc''\<rparr>,
      \<lparr>it_t = ''xd'', it_d = [], it_u = ''/xd''\<rparr>,
      \<lparr>it_t = ''xe'', it_d = [], it_u = ''/xe''\<rparr>,
      \<lparr>it_t = ''xf'', it_d = [], it_u = ''/xf''\<rparr>,
      \<lparr>it_t = ''xg'', it_d = [], it_u = ''/xg''\<rparr>,
      \<lparr>it_t = ''xh'', it_d = [], it_u = ''/xh''\<rparr>,
      \<lparr>it_t = ''xi'', it_d = [], it_u = ''/xi''\<rparr>,
      \<lparr>it_t = ''xj'', it_d = [], it_u = ''/xj''\<rparr>,
      \<lparr>it_t = ''xk'', it_d = [], it_u = ''/xk''\<rparr>,
      \<lparr>it_t = ''xa'', it_d = [], it_u = ''/xa''\<rparr>]) = 11"
    by code_simp
  have t: "top_C lex_compare ''x''
     [\<lparr>it_t = ''xb'', it_d = [], it_u = ''/xb''\<rparr>,
      \<lparr>it_t = ''xc'', it_d = [], it_u = ''/xc''\<rparr>,
      \<lparr>it_t = ''xd'', it_d = [], it_u = ''/xd''\<rparr>,
      \<lparr>it_t = ''xe'', it_d = [], it_u = ''/xe''\<rparr>,
      \<lparr>it_t = ''xf'', it_d = [], it_u = ''/xf''\<rparr>,
      \<lparr>it_t = ''xg'', it_d = [], it_u = ''/xg''\<rparr>,
      \<lparr>it_t = ''xh'', it_d = [], it_u = ''/xh''\<rparr>,
      \<lparr>it_t = ''xi'', it_d = [], it_u = ''/xi''\<rparr>,
      \<lparr>it_t = ''xj'', it_d = [], it_u = ''/xj''\<rparr>,
      \<lparr>it_t = ''xk'', it_d = [], it_u = ''/xk''\<rparr>,
      \<lparr>it_t = ''xa'', it_d = [], it_u = ''/xa''\<rparr>]
     = [\<lparr>sc_s = 800, sc_t = ''xa'', sc_u = ''/xa'', sc_d = []\<rparr>,
        \<lparr>sc_s = 800, sc_t = ''xb'', sc_u = ''/xb'', sc_d = []\<rparr>,
        \<lparr>sc_s = 800, sc_t = ''xc'', sc_u = ''/xc'', sc_d = []\<rparr>,
        \<lparr>sc_s = 800, sc_t = ''xd'', sc_u = ''/xd'', sc_d = []\<rparr>,
        \<lparr>sc_s = 800, sc_t = ''xe'', sc_u = ''/xe'', sc_d = []\<rparr>,
        \<lparr>sc_s = 800, sc_t = ''xf'', sc_u = ''/xf'', sc_d = []\<rparr>,
        \<lparr>sc_s = 800, sc_t = ''xg'', sc_u = ''/xg'', sc_d = []\<rparr>,
        \<lparr>sc_s = 800, sc_t = ''xh'', sc_u = ''/xh'', sc_d = []\<rparr>]"
    by code_simp
  have d: "drop 8 (ranked_C lex_compare ''x''
     [\<lparr>it_t = ''xb'', it_d = [], it_u = ''/xb''\<rparr>,
      \<lparr>it_t = ''xc'', it_d = [], it_u = ''/xc''\<rparr>,
      \<lparr>it_t = ''xd'', it_d = [], it_u = ''/xd''\<rparr>,
      \<lparr>it_t = ''xe'', it_d = [], it_u = ''/xe''\<rparr>,
      \<lparr>it_t = ''xf'', it_d = [], it_u = ''/xf''\<rparr>,
      \<lparr>it_t = ''xg'', it_d = [], it_u = ''/xg''\<rparr>,
      \<lparr>it_t = ''xh'', it_d = [], it_u = ''/xh''\<rparr>,
      \<lparr>it_t = ''xi'', it_d = [], it_u = ''/xi''\<rparr>,
      \<lparr>it_t = ''xj'', it_d = [], it_u = ''/xj''\<rparr>,
      \<lparr>it_t = ''xk'', it_d = [], it_u = ''/xk''\<rparr>,
      \<lparr>it_t = ''xa'', it_d = [], it_u = ''/xa''\<rparr>])
     = [\<lparr>sc_s = 800, sc_t = ''xi'', sc_u = ''/xi'', sc_d = []\<rparr>,
        \<lparr>sc_s = 800, sc_t = ''xj'', sc_u = ''/xj'', sc_d = []\<rparr>,
        \<lparr>sc_s = 800, sc_t = ''xk'', sc_u = ''/xk'', sc_d = []\<rparr>]"
    by code_simp
  note th = top_candidates [of "''x''"
     "[\<lparr>it_t = ''xb'', it_d = [], it_u = ''/xb''\<rparr>,
      \<lparr>it_t = ''xc'', it_d = [], it_u = ''/xc''\<rparr>,
      \<lparr>it_t = ''xd'', it_d = [], it_u = ''/xd''\<rparr>,
      \<lparr>it_t = ''xe'', it_d = [], it_u = ''/xe''\<rparr>,
      \<lparr>it_t = ''xf'', it_d = [], it_u = ''/xf''\<rparr>,
      \<lparr>it_t = ''xg'', it_d = [], it_u = ''/xg''\<rparr>,
      \<lparr>it_t = ''xh'', it_d = [], it_u = ''/xh''\<rparr>,
      \<lparr>it_t = ''xi'', it_d = [], it_u = ''/xi''\<rparr>,
      \<lparr>it_t = ''xj'', it_d = [], it_u = ''/xj''\<rparr>,
      \<lparr>it_t = ''xk'', it_d = [], it_u = ''/xk''\<rparr>,
      \<lparr>it_t = ''xa'', it_d = [], it_u = ''/xa''\<rparr>]" lex_compare 800]
  from th a have 1: "length (top_A ''x''
     [\<lparr>it_t = ''xb'', it_d = [], it_u = ''/xb''\<rparr>,
      \<lparr>it_t = ''xc'', it_d = [], it_u = ''/xc''\<rparr>,
      \<lparr>it_t = ''xd'', it_d = [], it_u = ''/xd''\<rparr>,
      \<lparr>it_t = ''xe'', it_d = [], it_u = ''/xe''\<rparr>,
      \<lparr>it_t = ''xf'', it_d = [], it_u = ''/xf''\<rparr>,
      \<lparr>it_t = ''xg'', it_d = [], it_u = ''/xg''\<rparr>,
      \<lparr>it_t = ''xh'', it_d = [], it_u = ''/xh''\<rparr>,
      \<lparr>it_t = ''xi'', it_d = [], it_u = ''/xi''\<rparr>,
      \<lparr>it_t = ''xj'', it_d = [], it_u = ''/xj''\<rparr>,
      \<lparr>it_t = ''xk'', it_d = [], it_u = ''/xk''\<rparr>,
      \<lparr>it_t = ''xa'', it_d = [], it_u = ''/xa''\<rparr>]) = 10"
    by simp
  from th consistent_lex_compare
  have "\<forall>a\<in>set (top_C lex_compare ''x''
     [\<lparr>it_t = ''xb'', it_d = [], it_u = ''/xb''\<rparr>,
      \<lparr>it_t = ''xc'', it_d = [], it_u = ''/xc''\<rparr>,
      \<lparr>it_t = ''xd'', it_d = [], it_u = ''/xd''\<rparr>,
      \<lparr>it_t = ''xe'', it_d = [], it_u = ''/xe''\<rparr>,
      \<lparr>it_t = ''xf'', it_d = [], it_u = ''/xf''\<rparr>,
      \<lparr>it_t = ''xg'', it_d = [], it_u = ''/xg''\<rparr>,
      \<lparr>it_t = ''xh'', it_d = [], it_u = ''/xh''\<rparr>,
      \<lparr>it_t = ''xi'', it_d = [], it_u = ''/xi''\<rparr>,
      \<lparr>it_t = ''xj'', it_d = [], it_u = ''/xj''\<rparr>,
      \<lparr>it_t = ''xk'', it_d = [], it_u = ''/xk''\<rparr>,
      \<lparr>it_t = ''xa'', it_d = [], it_u = ''/xa''\<rparr>]).
      \<forall>b\<in>set (drop 8 (ranked_C lex_compare ''x''
     [\<lparr>it_t = ''xb'', it_d = [], it_u = ''/xb''\<rparr>,
      \<lparr>it_t = ''xc'', it_d = [], it_u = ''/xc''\<rparr>,
      \<lparr>it_t = ''xd'', it_d = [], it_u = ''/xd''\<rparr>,
      \<lparr>it_t = ''xe'', it_d = [], it_u = ''/xe''\<rparr>,
      \<lparr>it_t = ''xf'', it_d = [], it_u = ''/xf''\<rparr>,
      \<lparr>it_t = ''xg'', it_d = [], it_u = ''/xg''\<rparr>,
      \<lparr>it_t = ''xh'', it_d = [], it_u = ''/xh''\<rparr>,
      \<lparr>it_t = ''xi'', it_d = [], it_u = ''/xi''\<rparr>,
      \<lparr>it_t = ''xj'', it_d = [], it_u = ''/xj''\<rparr>,
      \<lparr>it_t = ''xk'', it_d = [], it_u = ''/xk''\<rparr>,
      \<lparr>it_t = ''xa'', it_d = [], it_u = ''/xa''\<rparr>])).
        sc_s b < sc_s a \<or> (sc_s a = sc_s b \<and> lex_compare (sc_t a) (sc_t b) \<le> 0)"
    by blast
  then have 2: "lex_compare ''xh'' ''xi'' \<le> 0"
    unfolding t d by simp
  from 1 2 show ?thesis unfolding t d by simp
qed

end
